theory Spec2Isabelle
  imports Main
begin

section \<open>Python values and failures\<close>

text \<open>
  The engine is Python: integers are unbounded (\<open>int\<close>), a list index may be negative
  (it then counts from the end) and an index out of range raises. Every raise of the
  source is a value \<open>Inl e\<close> of the model.
\<close>

datatype py_error = IndexError | KeyError | AttributeError | ZeroDivisionError

definition py_index :: "'a list \<Rightarrow> int \<Rightarrow> py_error + 'a" where
  \<comment> \<open>\<^verbatim>\<open>xs[i]\<close>\<close>
  "py_index xs i =
     (let n = int (length xs); k = (if i < 0 then n + i else i)
      in if 0 \<le> k \<and> k < n then Inr (xs ! nat k) else Inl IndexError)"

definition py_setitem :: "'a list \<Rightarrow> int \<Rightarrow> 'a \<Rightarrow> py_error + 'a list" where
  \<comment> \<open>\<^verbatim>\<open>xs[i] = v\<close>\<close>
  "py_setitem xs i v =
     (let n = int (length xs); k = (if i < 0 then n + i else i)
      in if 0 \<le> k \<and> k < n then Inr (xs[nat k := v]) else Inl IndexError)"

definition random_choice :: "nat \<Rightarrow> 'a list \<Rightarrow> py_error + 'a" where
  \<comment> \<open>\<^verbatim>\<open>random.choice(xs)\<close>; the number drawn is the argument \<open>rnd\<close>\<close>
  "random_choice rnd xs =
     (if xs = [] then Inl IndexError else Inr (xs ! (rnd mod length xs)))"

section \<open>settings.py\<close>

type_synonym color = "nat \<times> nat \<times> nat"
type_synonym matrix = "int list list"
type_synonym grid_t = "int list list"

definition SCREEN_WIDTH :: int where "SCREEN_WIDTH = 400"
definition SCREEN_HEIGHT :: int where "SCREEN_HEIGHT = 800"
definition CELL_SIZE :: int where "CELL_SIZE = 40"

definition CYAN :: color where "CYAN = (0, 255, 255)"
definition YELLOW :: color where "YELLOW = (255, 255, 0)"
definition MAGENTA :: color where "MAGENTA = (255, 0, 255)"
definition GREEN :: color where "GREEN = (0, 255, 0)"
definition RED :: color where "RED = (255, 0, 0)"
definition BLUE :: color where "BLUE = (0, 0, 255)"
definition ORANGE :: color where "ORANGE = (255, 165, 0)"

definition GRID_WIDTH :: int where "GRID_WIDTH = SCREEN_WIDTH div CELL_SIZE"
definition GRID_HEIGHT :: int where "GRID_HEIGHT = SCREEN_HEIGHT div CELL_SIZE"
definition LEVEL_CHANGE_LINES :: int where "LEVEL_CHANGE_LINES = 10"
definition LEVEL_SPEED_INCREMENT :: int where "LEVEL_SPEED_INCREMENT = 10"

text \<open>
  The dictionary \<^verbatim>\<open>TETRIMINOS\<close>, in the order of its keys. The inner dictionary
  \<^verbatim>\<open>{'rotations': ..., 'color': ...}\<close> is the pair (rotations, color).
\<close>

definition TETRIMINOS :: "(string \<times> ((matrix \<times> color) list \<times> color)) list" where
  "TETRIMINOS =
    [(''I'', ([([[1], [1], [1], [1]], CYAN),
               ([[1, 1, 1, 1]], CYAN)], CYAN)),
     (''O'', ([([[2, 2], [2, 2]], YELLOW)], YELLOW)),
     (''T'', ([([[0, 3, 0], [3, 3, 3]], MAGENTA),
               ([[3, 0], [3, 3], [3, 0]], MAGENTA),
               ([[3, 3, 3], [0, 3, 0]], MAGENTA),
               ([[0, 3], [3, 3], [0, 3]], MAGENTA)], MAGENTA)),
     (''S'', ([([[0, 4, 4], [4, 4, 0]], GREEN),
               ([[4, 0], [4, 4], [0, 4]], GREEN)], GREEN)),
     (''Z'', ([([[5, 5, 0], [0, 5, 5]], RED),
               ([[0, 5], [5, 5], [5, 0]], RED)], RED)),
     (''J'', ([([[6, 0, 0], [6, 6, 6]], BLUE),
               ([[6, 6], [6, 0], [6, 0]], BLUE),
               ([[6, 6, 6], [0, 0, 6]], BLUE),
               ([[0, 6], [0, 6], [6, 6]], BLUE)], BLUE)),
     (''L'', ([([[0, 0, 7], [7, 7, 7]], ORANGE),
               ([[7, 0], [7, 0], [7, 7]], ORANGE),
               ([[7, 7, 7], [7, 0, 0]], ORANGE),
               ([[7, 7], [0, 7], [0, 7]], ORANGE)], ORANGE))]"

section \<open>tetrimino.py\<close>

text \<open>
  The attribute \<^verbatim>\<open>Tetrimino.grid\<close> is a reference to the list the engine holds in
  \<^verbatim>\<open>self.grid\<close>: \<^verbatim>\<open>new_tetrimino\<close> passes \<^verbatim>\<open>self.grid\<close> to the constructor,
  \<^verbatim>\<open>place_tetrimino\<close> mutates that very object, and \<^verbatim>\<open>clear_lines\<close>, which
  rebinds \<^verbatim>\<open>self.grid\<close>, is followed by \<^verbatim>\<open>new_tetrimino\<close> before any further
  collision test. The methods of the piece therefore take the grid they read as their
  first argument. (A piece kept across a call of \<^verbatim>\<open>clear_lines\<close> from outside the
  engine would go on reading the old list; the constructor, \<^verbatim>\<open>update\<close> and
  \<^verbatim>\<open>reset_game\<close> never leave such a piece.) The attribute \<^verbatim>\<open>rotate_sound\<close> of the piece is never read and is
  left out.
\<close>

record tetrimino =
  shape :: string
  rotation :: int
  position :: "int \<times> int"
  rotations :: "(matrix \<times> color) list"
  color :: color

definition Tetrimino_init :: "string \<Rightarrow> py_error + tetrimino" where
  "Tetrimino_init sh =
     (case map_of TETRIMINOS sh of
        None \<Rightarrow> Inl KeyError
      | Some entry \<Rightarrow>
          Inr \<lparr>shape = sh, rotation = 0, position = (0, 4),
               rotations = fst entry, color = snd entry\<rparr>)"

definition blocked :: "grid_t \<Rightarrow> int \<Rightarrow> int \<Rightarrow> py_error + bool" where
  \<comment> \<open>\<^verbatim>\<open>r >= len(grid) or c < 0 or c >= len(grid[0]) or grid[r][c]\<close>, left to right\<close>
  "blocked g r c =
     (if r \<ge> int (length g) then Inr True
      else if c < 0 then Inr True
      else (case py_index g 0 of
              Inl e \<Rightarrow> Inl e
            | Inr row0 \<Rightarrow>
                if c \<ge> int (length row0) then Inr True
                else (case py_index g r of
                        Inl e \<Rightarrow> Inl e
                      | Inr gr \<Rightarrow>
                          (case py_index gr c of
                             Inl e \<Rightarrow> Inl e
                           | Inr v \<Rightarrow> Inr (v \<noteq> 0)))))"

fun fit_line :: "grid_t \<Rightarrow> int \<Rightarrow> int \<Rightarrow> nat \<Rightarrow> int list \<Rightarrow> py_error + bool" where
  \<comment> \<open>the inner loop from column index \<open>j\<close> on: \<open>Inr False\<close> is the early return\<close>
  "fit_line g r col j [] = Inr True"
| "fit_line g r col j (cell # cells) =
     (if cell > 0 then
        (case blocked g r (col + int j) of
           Inl e \<Rightarrow> Inl e
         | Inr b \<Rightarrow> if b then Inr False else fit_line g r col (Suc j) cells)
      else fit_line g r col (Suc j) cells)"

fun fit_lines :: "grid_t \<Rightarrow> int \<Rightarrow> int \<Rightarrow> nat \<Rightarrow> matrix \<Rightarrow> py_error + bool" where
  \<comment> \<open>the outer loop from row index \<open>i\<close> on\<close>
  "fit_lines g row col i [] = Inr True"
| "fit_lines g row col i (line # lines) =
     (case fit_line g (row + int i) col 0 line of
        Inl e \<Rightarrow> Inl e
      | Inr ok \<Rightarrow> if ok then fit_lines g row col (Suc i) lines else Inr False)"

definition can_fit :: "grid_t \<Rightarrow> tetrimino \<Rightarrow> int \<Rightarrow> int \<Rightarrow> int option \<Rightarrow> py_error + bool" where
  "can_fit g t row col rot =
     (let rotation' = (case rot of None \<Rightarrow> rotation t | Some k \<Rightarrow> k)
      in case py_index (rotations t) rotation' of
           Inl e \<Rightarrow> Inl e
         | Inr entry \<Rightarrow> fit_lines g row col 0 (fst entry))"

definition get_current_shape :: "tetrimino \<Rightarrow> py_error + matrix" where
  "get_current_shape t =
     (case py_index (rotations t) (rotation t) of
        Inl e \<Rightarrow> Inl e
      | Inr entry \<Rightarrow> Inr (fst entry))"

text \<open>
  A sound object is the number of times it has been played; \<open>None\<close> is Python's
  \<^verbatim>\<open>None\<close> (what \<^verbatim>\<open>main\<close> passes when the game is muted).
\<close>

type_synonym sound = "nat option"

definition rotate_tetrimino ::
  "grid_t \<Rightarrow> tetrimino \<Rightarrow> int \<Rightarrow> int \<Rightarrow> int \<Rightarrow> sound \<Rightarrow> py_error + (tetrimino \<times> sound \<times> int)" where
  \<comment> \<open>\<^verbatim>\<open>Tetrimino.rotate\<close>: the piece, the sound and the returned timestamp\<close>
  "rotate_tetrimino g t current_time last_rotation_time rotation_delay rotate_sound =
     (if current_time - last_rotation_time > rotation_delay then
        (if rotations t = [] then Inl ZeroDivisionError
         else
           let next_rotation = (rotation t + 1) mod int (length (rotations t))
           in case can_fit g t (fst (position t)) (snd (position t)) (Some next_rotation) of
                Inl e \<Rightarrow> Inl e
              | Inr ok \<Rightarrow>
                  if ok then
                    Inr (t\<lparr>rotation := next_rotation\<rparr>,
                         (case rotate_sound of None \<Rightarrow> None | Some n \<Rightarrow> Some (Suc n)),
                         current_time)
                  else Inr (t, rotate_sound, last_rotation_time))
      else Inr (t, rotate_sound, last_rotation_time))"

section \<open>game_logic.py\<close>

record game_logic =
  rotate_sound :: sound
  break_line_sound :: sound
  grid :: grid_t
  score :: int
  lines_cleared :: int
  level :: int
  current_tetrimino :: tetrimino
  game_over :: bool
  is_paused :: bool
  drop_speed :: int
  soft_drop_speed :: int
  move_speed :: int
  rotation_delay :: int
  last_drop_time :: int
  last_move_time :: int
  last_rotation_time :: int

definition toggle_pause :: "game_logic \<Rightarrow> game_logic \<times> bool" where
  "toggle_pause s = (s\<lparr>is_paused := \<not> is_paused s\<rparr>, \<not> is_paused s)"

definition adjust_game_speed :: "game_logic \<Rightarrow> game_logic" where
  "adjust_game_speed s =
     s\<lparr>drop_speed := max 100 (drop_speed s - LEVEL_SPEED_INCREMENT * (level s - 1))\<rparr>"

definition update_level :: "game_logic \<Rightarrow> game_logic" where
  "update_level s =
     (let new_level = 1 + lines_cleared s div LEVEL_CHANGE_LINES
      in if new_level > level s then adjust_game_speed (s\<lparr>level := new_level\<rparr>) else s)"

definition new_tetrimino :: "game_logic \<Rightarrow> nat \<Rightarrow> py_error + (game_logic \<times> tetrimino)" where
  \<comment> \<open>the piece is returned; the caller stores it\<close>
  "new_tetrimino s rnd =
     (case random_choice rnd (map fst TETRIMINOS) of
        Inl e \<Rightarrow> Inl e
      | Inr tetrimino_type \<Rightarrow>
          (case Tetrimino_init tetrimino_type of
             Inl e \<Rightarrow> Inl e
           | Inr t \<Rightarrow>
               (case can_fit (grid s) t 0 4 None of
                  Inl e \<Rightarrow> Inl e
                | Inr ok \<Rightarrow>
                    Inr (if \<not> ok then s\<lparr>game_over := True\<rparr> else s, t))))"

definition init ::
  "sound \<Rightarrow> sound \<Rightarrow> nat \<Rightarrow> int \<Rightarrow> int \<Rightarrow> int \<Rightarrow> py_error + game_logic" where
  \<comment> \<open>\<^verbatim>\<open>GameLogic.__init__\<close>; \<open>t1\<close>, \<open>t2\<close>, \<open>t3\<close> are the three readings of the clock.
      The attributes assigned after the call of \<^verbatim>\<open>new_tetrimino\<close> do not exist
      before it and the call reads none of them: the record given to it holds the values
      they are about to get.\<close>
  "init break_line_snd rotate_snd rnd t1 t2 t3 =
     (let s0 = \<lparr>rotate_sound = rotate_snd, break_line_sound = break_line_snd,
                 grid = replicate (nat GRID_HEIGHT) (replicate (nat GRID_WIDTH) 0),
                 score = 0, lines_cleared = 0, level = 1,
                 current_tetrimino = \<lparr>shape = [], rotation = 0, position = (0, 4),
                                        rotations = [], color = (0, 0, 0)\<rparr>,
                 game_over = False, is_paused = False,
                 drop_speed = 1000, soft_drop_speed = 50, move_speed = 100,
                 rotation_delay = 200,
                 last_drop_time = t1, last_move_time = t2, last_rotation_time = t3\<rparr>
      in case new_tetrimino s0 rnd of
           Inl e \<Rightarrow> Inl e
         | Inr (s1, t) \<Rightarrow> Inr (s1\<lparr>current_tetrimino := t, game_over := False, is_paused := False\<rparr>))"

definition reset_game :: "game_logic \<Rightarrow> nat \<Rightarrow> py_error + game_logic" where
  "reset_game s rnd =
     (let s1 = s\<lparr>score := 0, lines_cleared := 0, level := 1\<rparr>
      in case new_tetrimino s1 rnd of
           Inl e \<Rightarrow> Inl e
         | Inr (s2, t) \<Rightarrow> Inr (s2\<lparr>current_tetrimino := t, game_over := False, is_paused := False\<rparr>))"

fun place_line :: "grid_t \<Rightarrow> int \<Rightarrow> int \<Rightarrow> nat \<Rightarrow> int list \<Rightarrow> py_error + grid_t" where
  \<comment> \<open>the inner loop of \<^verbatim>\<open>place_tetrimino\<close>; \<^verbatim>\<open>grid[r][c] = cell\<close> reads the row
      \<^verbatim>\<open>grid[r]\<close> and stores into it\<close>
  "place_line g r col j [] = Inr g"
| "place_line g r col j (cell # cells) =
     (if cell > 0 then
        (case py_index g r of
           Inl e \<Rightarrow> Inl e
         | Inr gr \<Rightarrow>
             (case py_setitem gr (col + int j) cell of
                Inl e \<Rightarrow> Inl e
              | Inr gr' \<Rightarrow>
                  (case py_setitem g r gr' of
                     Inl e \<Rightarrow> Inl e
                   | Inr g' \<Rightarrow> place_line g' r col (Suc j) cells)))
      else place_line g r col (Suc j) cells)"

fun place_lines :: "grid_t \<Rightarrow> int \<Rightarrow> int \<Rightarrow> nat \<Rightarrow> matrix \<Rightarrow> py_error + grid_t" where
  "place_lines g row col i [] = Inr g"
| "place_lines g row col i (line # lines) =
     (case place_line g (row + int i) col 0 line of
        Inl e \<Rightarrow> Inl e
      | Inr g' \<Rightarrow> place_lines g' row col (Suc i) lines)"

definition place_tetrimino :: "game_logic \<Rightarrow> py_error + game_logic" where
  "place_tetrimino s =
     (case get_current_shape (current_tetrimino s) of
        Inl e \<Rightarrow> Inl e
      | Inr sh \<Rightarrow>
          (case place_lines (grid s) (fst (position (current_tetrimino s)))
                  (snd (position (current_tetrimino s))) 0 sh of
             Inl e \<Rightarrow> Inl e
           | Inr g' \<Rightarrow> Inr (s\<lparr>grid := g'\<rparr>)))"

fun clear_loop :: "grid_t \<Rightarrow> int \<Rightarrow> grid_t \<Rightarrow> int \<times> grid_t" where
  \<comment> \<open>the loop of \<^verbatim>\<open>clear_lines\<close> over the rows left, with \<^verbatim>\<open>cleared_lines\<close> and
      \<^verbatim>\<open>new_grid\<close> so far\<close>
  "clear_loop [] cleared_lines new_grid = (cleared_lines, new_grid)"
| "clear_loop (row # rows) cleared_lines new_grid =
     (if 0 \<in> set row then clear_loop rows cleared_lines (new_grid @ [row])
      else clear_loop rows (cleared_lines + 1) new_grid)"

definition play :: "sound \<Rightarrow> py_error + sound" where
  \<comment> \<open>\<^verbatim>\<open>sound.play()\<close>: on \<^verbatim>\<open>None\<close> the attribute lookup raises\<close>
  "play sd = (case sd of None \<Rightarrow> Inl AttributeError | Some n \<Rightarrow> Inr (Some (Suc n)))"

definition clear_lines :: "game_logic \<Rightarrow> py_error + game_logic" where
  "clear_lines s =
     (case clear_loop (grid s) 0 [] of
        (cleared_lines, new_grid) \<Rightarrow>
          (case (if cleared_lines > 0 then play (break_line_sound s)
                 else Inr (break_line_sound s)) of
             Inl e \<Rightarrow> Inl e
           | Inr sd \<Rightarrow>
               Inr (s\<lparr>break_line_sound := sd,
                       grid := replicate (nat cleared_lines) (replicate (nat GRID_WIDTH) 0)
                                 @ new_grid,
                       lines_cleared := lines_cleared s + cleared_lines,
                       score := score s + cleared_lines ^ 2\<rparr>)))"

definition handle_moves :: "game_logic \<Rightarrow> int \<Rightarrow> string set \<Rightarrow> py_error + game_logic" where
  "handle_moves s current_time commands =
     (if current_time - last_move_time s > move_speed s then
        (case (if ''move_left'' \<in> commands
               then can_fit (grid s) (current_tetrimino s)
                      (fst (position (current_tetrimino s)))
                      (snd (position (current_tetrimino s)) - 1) None
               else Inr False) of
           Inl e \<Rightarrow> Inl e
         | Inr left \<Rightarrow>
             let t1 = (if left
                       then (current_tetrimino s)
                              \<lparr>position := (fst (position (current_tetrimino s)),
                                            snd (position (current_tetrimino s)) - 1)\<rparr>
                       else current_tetrimino s)
             in (case (if ''move_right'' \<in> commands
                       then can_fit (grid s) t1 (fst (position t1)) (snd (position t1) + 1) None
                       else Inr False) of
                   Inl e \<Rightarrow> Inl e
                 | Inr right \<Rightarrow>
                     let t2 = (if right
                               then t1\<lparr>position := (fst (position t1), snd (position t1) + 1)\<rparr>
                               else t1)
                     in Inr (s\<lparr>current_tetrimino := t2, last_move_time := current_time\<rparr>)))
      else Inr s)"

definition handle_rotation :: "game_logic \<Rightarrow> int \<Rightarrow> string set \<Rightarrow> py_error + game_logic" where
  "handle_rotation s current_time commands =
     (if ''rotate'' \<in> commands then
        (case rotate_tetrimino (grid s) (current_tetrimino s) current_time
                (last_rotation_time s) (rotation_delay s) (rotate_sound s) of
           Inl e \<Rightarrow> Inl e
         | Inr (t, sd, time) \<Rightarrow>
             Inr (s\<lparr>current_tetrimino := t, rotate_sound := sd, last_rotation_time := time\<rparr>))
      else Inr s)"

definition process_player_input ::
  "game_logic \<Rightarrow> int \<Rightarrow> string set \<Rightarrow> py_error + game_logic" where
  "process_player_input s current_time commands =
     (case handle_moves s current_time commands of
        Inl e \<Rightarrow> Inl e
      | Inr s1 \<Rightarrow> handle_rotation s1 current_time commands)"

definition move_down :: "tetrimino \<Rightarrow> tetrimino" where
  \<comment> \<open>\<^verbatim>\<open>position[0] += 1\<close>\<close>
  "move_down t = t\<lparr>position := (fst (position t) + 1, snd (position t))\<rparr>"

definition lock_and_spawn :: "game_logic \<Rightarrow> nat \<Rightarrow> py_error + game_logic" where
  \<comment> \<open>lines 176 to 181, the body of the inner \<^verbatim>\<open>if\<close> of \<^verbatim>\<open>drop_tetrimino\<close>\<close>
  "lock_and_spawn s rnd =
     (case place_tetrimino s of
        Inl e \<Rightarrow> Inl e
      | Inr s1 \<Rightarrow>
          (case clear_lines s1 of
             Inl e \<Rightarrow> Inl e
           | Inr s2 \<Rightarrow>
               (case new_tetrimino (update_level s2) rnd of
                  Inl e \<Rightarrow> Inl e
                | Inr (s3, t) \<Rightarrow>
                    let s4 = s3\<lparr>current_tetrimino := t\<rparr>
                    in (case can_fit (grid s4) t 0 4 None of
                          Inl e \<Rightarrow> Inl e
                        | Inr ok \<Rightarrow> Inr (if \<not> ok then s4\<lparr>game_over := True\<rparr> else s4)))))"

definition drop_tetrimino :: "game_logic \<Rightarrow> nat \<Rightarrow> py_error + (game_logic \<times> bool)" where
  "drop_tetrimino s rnd =
     (let t = current_tetrimino s
      in case can_fit (grid s) t (fst (position t) + 1) (snd (position t)) None of
           Inl e \<Rightarrow> Inl e
         | Inr ok \<Rightarrow>
             if ok then
               (let t' = move_down t; s1 = s\<lparr>current_tetrimino := t'\<rparr>
                in case can_fit (grid s1) t' (fst (position t') + 1) (snd (position t')) None of
                     Inl e \<Rightarrow> Inl e
                   | Inr further \<Rightarrow>
                       if \<not> further then
                         (case lock_and_spawn s1 rnd of
                            Inl e \<Rightarrow> Inl e
                          | Inr s2 \<Rightarrow> Inr (s2, True))
                       else Inr (s1, True))
             else Inr (s, False))"

definition attempt_to_drop :: "game_logic \<Rightarrow> int \<Rightarrow> nat \<Rightarrow> py_error + game_logic" where
  "attempt_to_drop s current_time rnd =
     (case drop_tetrimino s rnd of
        Inl e \<Rightarrow> Inl e
      | Inr (s1, dropped) \<Rightarrow>
          if \<not> dropped then
            (case place_tetrimino s1 of
               Inl e \<Rightarrow> Inl e
             | Inr s2 \<Rightarrow>
                 (case clear_lines s2 of
                    Inl e \<Rightarrow> Inl e
                  | Inr s3 \<Rightarrow>
                      (case new_tetrimino s3 rnd of
                         Inl e \<Rightarrow> Inl e
                       | Inr (s4, t) \<Rightarrow>
                           Inr (s4\<lparr>current_tetrimino := t, last_drop_time := current_time\<rparr>))))
          else Inr (s1\<lparr>last_drop_time := current_time\<rparr>))"

definition handle_automatic_drop ::
  "game_logic \<Rightarrow> int \<Rightarrow> string set \<Rightarrow> nat \<Rightarrow> py_error + game_logic" where
  "handle_automatic_drop s current_time commands rnd =
     (if ''move_down'' \<in> commands then
        (if current_time - last_drop_time s > soft_drop_speed s
         then attempt_to_drop s current_time rnd else Inr s)
      else if current_time - last_drop_time s > drop_speed s
      then attempt_to_drop s current_time rnd
      else Inr s)"

definition update :: "game_logic \<Rightarrow> string set \<Rightarrow> int \<Rightarrow> nat \<Rightarrow> py_error + game_logic" where
  \<comment> \<open>\<open>current_time\<close> is what \<^verbatim>\<open>pygame.time.get_ticks()\<close> returns in this frame and
      \<open>rnd\<close> the number drawn if a piece is spawned (at most one is)\<close>
  "update s commands current_time rnd =
     (if game_over s \<or> is_paused s then Inr s
      else case process_player_input s current_time commands of
             Inl e \<Rightarrow> Inl e
           | Inr s1 \<Rightarrow> handle_automatic_drop s1 current_time commands rnd)"

definition check_game_over :: "game_logic \<Rightarrow> py_error + (game_logic \<times> bool)" where
  "check_game_over s =
     (case can_fit (grid s) (current_tetrimino s) 0 4 None of
        Inl e \<Rightarrow> Inl e
      | Inr ok \<Rightarrow>
          let s1 = (if \<not> ok then s\<lparr>game_over := True\<rparr> else s)
          in Inr (s1, game_over s1))"

section \<open>Vocabulary of the specification\<close>

text \<open>
  The grid of the engine has \<^verbatim>\<open>GRID_HEIGHT\<close> rows of \<^verbatim>\<open>GRID_WIDTH\<close> cells; the
  collision test reads the height as \<^verbatim>\<open>len(grid)\<close> and the width as
  \<^verbatim>\<open>len(grid[0])\<close>.
\<close>

definition rectangular :: "grid_t \<Rightarrow> bool" where
  "rectangular g = (\<forall>row \<in> set g. length row = length (hd g))"

definition height :: "grid_t \<Rightarrow> int" where
  "height g = int (length g)"

definition width :: "grid_t \<Rightarrow> int" where
  "width g = (case g of [] \<Rightarrow> 0 | row0 # _ \<Rightarrow> int (length row0))"

definition occupied :: "grid_t \<Rightarrow> int \<Rightarrow> int \<Rightarrow> bool" where
  \<comment> \<open>the cell at row \<open>r\<close>, column \<open>c\<close> of the playfield holds a block\<close>
  "occupied g r c =
     (0 \<le> r \<and> r < height g \<and> 0 \<le> c \<and> c < width g \<and> g ! nat r ! nat c \<noteq> 0)"

definition spec_blocks :: "grid_t \<Rightarrow> int \<Rightarrow> int \<Rightarrow> bool" where
  \<comment> \<open>the four reasons for rejection the specification lists; a row above the top is
      none of them\<close>
  "spec_blocks g r c = (c < 0 \<or> c \<ge> width g \<or> r \<ge> height g \<or> occupied g r c)"

definition filled_cells :: "matrix \<Rightarrow> (nat \<times> nat) list" where
  \<comment> \<open>the local coordinates of the non-empty cells of a rotation matrix\<close>
  "filled_cells m =
     concat (map (\<lambda>i. map (\<lambda>j. (i, j)) (filter (\<lambda>j. m ! i ! j > 0) [0..<length (m ! i)]))
               [0..<length m])"

definition spec_rejects :: "grid_t \<Rightarrow> matrix \<Rightarrow> int \<Rightarrow> int \<Rightarrow> bool" where
  "spec_rejects g m row col =
     (\<exists>(i, j) \<in> set (filled_cells m). spec_blocks g (row + int i) (col + int j))"

definition is_full :: "int list \<Rightarrow> bool" where
  \<comment> \<open>a row is full iff every cell is non-empty\<close>
  "is_full row = (\<forall>cell \<in> set row. cell \<noteq> 0)"

definition full_rows :: "grid_t \<Rightarrow> nat" where
  "full_rows g = length (filter is_full g)"

section \<open>Concrete pieces, grids and engines\<close>

definition piece_I :: tetrimino where
  "piece_I = \<lparr>shape = ''I'', rotation = 0, position = (0, 4),
               rotations = [([[1], [1], [1], [1]], CYAN), ([[1, 1, 1, 1]], CYAN)],
               color = CYAN\<rparr>"

definition piece_O :: tetrimino where
  "piece_O = \<lparr>shape = ''O'', rotation = 0, position = (0, 4),
               rotations = [([[2, 2], [2, 2]], YELLOW)], color = YELLOW\<rparr>"

definition empty_grid :: grid_t where
  "empty_grid = replicate 20 (replicate 10 0)"

definition grid_bottom_block :: grid_t where
  \<comment> \<open>empty but for one block in the bottom row, column 4\<close>
  "grid_bottom_block = replicate 19 (replicate 10 0) @ [[0, 0, 0, 0, 1, 0, 0, 0, 0, 0]]"

definition grid_two_full :: grid_t where
  \<comment> \<open>the two bottom rows full, a partial row above them\<close>
  "grid_two_full =
     replicate 17 (replicate 10 0) @ [[0, 3, 3, 3, 0, 0, 0, 0, 0, 0]] @ replicate 2 (replicate 10 1)"

definition engine :: "grid_t \<Rightarrow> tetrimino \<Rightarrow> game_logic" where
  \<comment> \<open>an engine as the constructor leaves it, with the given grid and piece\<close>
  "engine g t =
     \<lparr>rotate_sound = Some 0, break_line_sound = Some 0, grid = g,
      score = 0, lines_cleared = 0, level = 1, current_tetrimino = t,
      game_over = False, is_paused = False,
      drop_speed = 1000, soft_drop_speed = 50, move_speed = 100, rotation_delay = 200,
      last_drop_time = 0, last_move_time = 0, last_rotation_time = 0\<rparr>"

definition engine_played :: game_logic where
  \<comment> \<open>an engine in the middle of a game: ten lines cleared, level 2, one block left\<close>
  "engine_played =
     (engine grid_bottom_block piece_I)
       \<lparr>score := 12, lines_cleared := 10, level := 2, drop_speed := 990,
        last_drop_time := 41000, last_move_time := 41500, last_rotation_time := 40000\<rparr>"

definition grid_tuck :: grid_t where
  \<comment> \<open>row 14 lacks its last four cells; below it, a well in column 6\<close>
  "grid_tuck =
     replicate 14 (replicate 10 0) @ [[1, 1, 1, 1, 1, 1, 0, 0, 0, 0]]
       @ replicate 5 [1, 1, 1, 1, 1, 1, 0, 1, 1, 1]"

definition engine_tuck :: game_logic where
  \<comment> \<open>nine lines cleared so far; the vertical I piece hangs over the well, rows 14 to 17\<close>
  "engine_tuck =
     (engine grid_tuck (piece_I\<lparr>position := (14, 6)\<rparr>))\<lparr>score := 9, lines_cleared := 9\<rparr>"

definition engine_rest :: game_logic where
  \<comment> \<open>the O piece one row above its resting place on the empty grid\<close>
  "engine_rest = engine empty_grid (piece_O\<lparr>position := (17, 4)\<rparr>)"

definition engine_muted :: game_logic where
  \<comment> \<open>the engine \<^verbatim>\<open>main\<close> builds when \<^verbatim>\<open>MUTE\<close> is set: no sound objects; two rows are full\<close>
  "engine_muted = (engine grid_two_full piece_I)\<lparr>rotate_sound := None, break_line_sound := None\<rparr>"

definition grid_stack :: grid_t where
  \<comment> \<open>a stack in column 4 that reaches up to row 2\<close>
  "grid_stack = replicate 2 (replicate 10 0) @ replicate 18 [0, 0, 0, 0, 1, 0, 0, 0, 0, 0]"

definition engine_stack :: game_logic where
  "engine_stack = engine grid_stack piece_O"

section \<open>Well-formed engines\<close>

definition grid_ok :: "grid_t \<Rightarrow> bool" where
  \<comment> \<open>\<^verbatim>\<open>GRID_HEIGHT\<close> rows of \<^verbatim>\<open>GRID_WIDTH\<close> cells, each cell in \<open>{0..7}\<close>\<close>
  "grid_ok g =
     (length g = nat GRID_HEIGHT
      \<and> (\<forall>row \<in> set g. length row = nat GRID_WIDTH \<and> (\<forall>cell \<in> set row. 0 \<le> cell \<and> cell \<le> 7)))"

definition cells_ok :: "matrix \<Rightarrow> bool" where
  "cells_ok m = (\<forall>line \<in> set m. \<forall>cell \<in> set line. 0 \<le> cell \<and> cell \<le> 7)"

definition from_catalog :: "tetrimino \<Rightarrow> bool" where
  \<comment> \<open>the rotations and the color of the piece are those \<^verbatim>\<open>TETRIMINOS\<close> has for its shape\<close>
  "from_catalog t = ((shape t, rotations t, color t) \<in> set TETRIMINOS)"

definition spawn_ok :: "tetrimino \<Rightarrow> bool" where
  \<comment> \<open>a piece as the constructor makes it\<close>
  "spawn_ok t = (position t = (0, 4) \<and> rotation t = 0 \<and> from_catalog t \<and> rotations t \<noteq> [])"

definition engine_ok :: "game_logic \<Rightarrow> bool" where
  "engine_ok s = (grid_ok (grid s) \<and> from_catalog (current_tetrimino s))"

definition in_field :: "grid_t \<Rightarrow> tetrimino \<Rightarrow> bool" where
  \<comment> \<open>the rotation index is valid and every filled cell of the piece lies inside the grid\<close>
  "in_field g t =
     (0 \<le> rotation t \<and> rotation t < int (length (rotations t)) \<and> 0 \<le> fst (position t)
      \<and> (\<forall>(i, j) \<in> set (filled_cells (fst (rotations t ! nat (rotation t)))).
            fst (position t) + int i < height g
            \<and> 0 \<le> snd (position t) + int j \<and> snd (position t) + int j < width g))"

definition playable :: "game_logic \<Rightarrow> bool" where
  "playable s =
     (engine_ok s \<and> in_field (grid s) (current_tetrimino s) \<and> break_line_sound s \<noteq> None)"

definition piece_cell :: "matrix \<Rightarrow> int \<Rightarrow> int \<Rightarrow> int \<Rightarrow> int \<Rightarrow> int" where
  \<comment> \<open>the cell of the matrix, put at (\<open>row\<close>, \<open>col\<close>), that covers the grid cell (\<open>r\<close>, \<open>c\<close>);
      0 if there is none\<close>
  "piece_cell m row col r c =
     (if row \<le> r \<and> r < row + int (length m) \<and> col \<le> c
         \<and> c < col + int (length (m ! nat (r - row)))
      then m ! nat (r - row) ! nat (c - col) else 0)"

definition locked_grid :: "grid_t \<Rightarrow> tetrimino \<Rightarrow> grid_t \<Rightarrow> bool" where
  \<comment> \<open>\<open>g'\<close> is \<open>g\<close> with the filled cells of the piece written at its position\<close>
  "locked_grid g t g' =
     (length g' = length g
      \<and> (\<forall>r < length g. length (g' ! r) = length (g ! r)
            \<and> (\<forall>c < length (g ! r).
                  g' ! r ! c =
                    (let v = piece_cell (fst (rotations t ! nat (rotation t)))
                               (fst (position t)) (snd (position t)) (int r) (int c)
                     in if v > 0 then v else g ! r ! c))))"

section \<open>Collision test\<close>

lemma set_filled_cells:
  "set (filled_cells m) = {(i, j). i < length m \<and> j < length (m ! i) \<and> m ! i ! j > 0}"
  by (auto simp: filled_cells_def)

lemma py_index_nonneg:
  "0 \<le> i \<Longrightarrow> py_index xs i = (if i < int (length xs) then Inr (xs ! nat i) else Inl IndexError)"
  by (simp add: py_index_def Let_def)

lemma blocked_spec:
  assumes "rectangular g" and "0 \<le> r"
  shows "blocked g r c = Inr (spec_blocks g r c)"
proof (cases "r \<ge> int (length g)")
  case True
  then show ?thesis by (simp add: blocked_def spec_blocks_def height_def)
next
  case False
  then have r: "r < int (length g)" by simp
  with assms obtain row0 rest where g: "g = row0 # rest" by (cases g) auto
  have len: "length (g ! nat r) = length row0"
    using assms r g unfolding rectangular_def
    by (metis list.sel(1) nat_less_iff nth_mem)
  show ?thesis
    using assms r len g
    by (auto simp: blocked_def spec_blocks_def height_def width_def occupied_def py_index_nonneg)
qed

lemma fit_line_spec:
  assumes "rectangular g" and "0 \<le> r"
  shows "fit_line g r col j cells =
           Inr (\<not> (\<exists>k < length cells. cells ! k > 0 \<and> spec_blocks g r (col + int (j + k))))"
proof (induction cells arbitrary: j)
  case Nil
  then show ?case by simp
next
  case (Cons cell cells)
  have split: "(\<exists>k < length (cell # cells). P k) \<longleftrightarrow> P 0 \<or> (\<exists>k < length cells. P (Suc k))" for P
    by (auto simp: less_Suc_eq_0_disj)
  show ?case
    by (subst split) (simp add: Cons.IH blocked_spec [OF assms])
qed

lemma fit_lines_spec:
  assumes "rectangular g" and "0 \<le> row"
  shows "fit_lines g row col i lines =
           Inr (\<not> (\<exists>a < length lines. \<exists>k < length (lines ! a).
                     lines ! a ! k > 0 \<and> spec_blocks g (row + int (i + a)) (col + int k)))"
proof (induction lines arbitrary: i)
  case Nil
  then show ?case by simp
next
  case (Cons line lines)
  have split: "(\<exists>a < length (line # lines). P a) \<longleftrightarrow> P 0 \<or> (\<exists>a < length lines. P (Suc a))" for P
    by (auto simp: less_Suc_eq_0_disj)
  have r: "0 \<le> row + int i" using assms by simp
  show ?case
    by (subst split) (simp add: Cons.IH fit_line_spec [OF assms(1) r])
qed

lemma fit_lines_rejects:
  assumes "rectangular g" and "0 \<le> row"
  shows "fit_lines g row col 0 m = Inr (\<not> spec_rejects g m row col)"
  by (auto simp: fit_lines_spec [OF assms] spec_rejects_def set_filled_cells)

text \<open>
  Claim C1, as the specification words it: \<^verbatim>\<open>can_fit\<close> returns false iff a filled cell
  of the rotation lands left of column 0, right of the last column, below the last row or
  on an occupied cell, and a cell above row 0 is never a reason for rejection. The code
  has no test for a row above the top: there \<^verbatim>\<open>grid[r]\<close> with a negative \<open>r\<close> reads the
  grid from its bottom. The vertical I piece at row \<open>-1\<close>, column 4 has its first cell
  above the top and the other three on empty cells of the playfield, yet the test
  answers false, because the bottom row holds a block in column 4.
\<close>

theorem can_fit_above_top_counterexample:
  "can_fit grid_bottom_block piece_I (- 1) 4 (Some 0) = Inr False
   \<and> \<not> spec_rejects grid_bottom_block [[1], [1], [1], [1]] (- 1) 4"
  by code_simp

lemma can_fit_far_above_top_raises:
  "can_fit grid_bottom_block piece_I (- 21) 4 (Some 0) = Inl IndexError"
  by code_simp

text \<open>
  Claim C1, amended: on a rectangular grid and for a position with \<open>row \<ge> 0\<close> (the
  engine spawns at row 0 and only moves pieces down), \<^verbatim>\<open>can_fit\<close> returns, and it
  returns false iff some filled cell of the chosen rotation matrix lands at a column
  \<open>< 0\<close>, a column \<open>\<ge>\<close> the width, a row \<open>\<ge>\<close> the height, or on an occupied cell.
\<close>

theorem can_fit_rejects_iff:
  assumes "rectangular g" and "0 \<le> row"
    and "py_index (rotations t) (case rot of None \<Rightarrow> rotation t | Some k \<Rightarrow> k) = Inr (m, clr)"
  shows "can_fit g t row col rot = Inr (\<not> spec_rejects g m row col)"
  using assms(3) by (simp add: can_fit_def fit_lines_rejects [OF assms(1,2)])

theorem can_fit_rejects_iff_witness:
  "rectangular grid_bottom_block
   \<and> py_index (rotations piece_I) 0 = Inr ([[1], [1], [1], [1]], CYAN)
   \<and> can_fit grid_bottom_block piece_I 16 4 (Some 0) = Inr False
   \<and> spec_rejects grid_bottom_block [[1], [1], [1], [1]] 16 4
   \<and> can_fit grid_bottom_block piece_I 15 4 (Some 0) = Inr True"
proof -
  have r: "rectangular grid_bottom_block" by code_simp
  have i: "py_index (rotations piece_I) (case Some 0 of None \<Rightarrow> rotation piece_I | Some k \<Rightarrow> k)
             = Inr ([[1], [1], [1], [1]], CYAN)"
    by code_simp
  have a: "spec_rejects grid_bottom_block [[1], [1], [1], [1]] 16 4" by code_simp
  have b: "\<not> spec_rejects grid_bottom_block [[1], [1], [1], [1]] 15 4" by code_simp
  show ?thesis
    using r i a b
      can_fit_rejects_iff [OF r _ i, of 16 4] can_fit_rejects_iff [OF r _ i, of 15 4]
    by simp
qed

section \<open>Clearing lines\<close>

lemma is_full_iff: "is_full row \<longleftrightarrow> 0 \<notin> set row"
  by (auto simp: is_full_def)

lemma clear_loop_filter:
  "clear_loop rows n acc =
     (n + int (length (filter is_full rows)), acc @ filter (\<lambda>row. \<not> is_full row) rows)"
  by (induction rows arbitrary: n acc) (simp_all add: is_full_iff)

lemma clear_lines_cases:
  "clear_lines s =
     (if break_line_sound s = None \<and> 0 < full_rows (grid s) then Inl AttributeError
      else Inr (s\<lparr>break_line_sound :=
                      (if full_rows (grid s) > 0 then map_option Suc (break_line_sound s)
                       else break_line_sound s),
                   grid := replicate (full_rows (grid s)) (replicate (nat GRID_WIDTH) 0)
                             @ filter (\<lambda>row. \<not> is_full row) (grid s),
                   lines_cleared := lines_cleared s + int (full_rows (grid s)),
                   score := score s + (int (full_rows (grid s))) ^ 2\<rparr>))"
  by (auto simp: clear_lines_def clear_loop_filter full_rows_def play_def split: option.splits)

lemma no_full_rows_filter:
  assumes "full_rows g = 0"
  shows "filter (\<lambda>row. \<not> is_full row) g = g"
proof -
  from assms have "\<forall>row \<in> set g. \<not> is_full row"
    by (simp add: full_rows_def filter_empty_conv)
  then show ?thesis by (simp add: filter_id_conv)
qed

lemma clear_lines_result:
  assumes "break_line_sound s \<noteq> None \<or> full_rows (grid s) = 0"
  shows "clear_lines s =
           Inr (s\<lparr>break_line_sound :=
                      (if full_rows (grid s) > 0 then map_option Suc (break_line_sound s)
                       else break_line_sound s),
                   grid := replicate (full_rows (grid s)) (replicate (nat GRID_WIDTH) 0)
                             @ filter (\<lambda>row. \<not> is_full row) (grid s),
                   lines_cleared := lines_cleared s + int (full_rows (grid s)),
                   score := score s + (int (full_rows (grid s))) ^ 2\<rparr>)"
  using assms by (auto simp: clear_lines_cases)

text \<open>
  Claim C2 says that for every grid \<^verbatim>\<open>clear_lines\<close> removes exactly the full rows,
  keeps the others in order, puts as many empty rows on top and counts the removed rows.
  That is what the method does whenever it gets as far as the grid (lemma
  \<open>clear_lines_cases\<close>), but between counting the full rows and rebuilding the grid it
  calls \<^verbatim>\<open>self.break_line_sound.play()\<close> with no test of the sound, while
  \<^verbatim>\<open>Tetrimino.rotate\<close> tests \<^verbatim>\<open>if rotate_sound\<close> before it plays. \<^verbatim>\<open>main\<close> passes
  \<^verbatim>\<open>None\<close> for every sound when \<^verbatim>\<open>MUTE\<close> is set: in that engine a grid with a full row
  makes \<^verbatim>\<open>clear_lines\<close> raise, and no row is removed or counted.
\<close>

theorem clear_lines_muted_raises:
  "break_line_sound engine_muted = None
   \<and> grid engine_muted ! 19 = [1, 1, 1, 1, 1, 1, 1, 1, 1, 1]
   \<and> clear_lines engine_muted = Inl AttributeError"
  by code_simp

lemma clear_lines_with_sound_clears:
  "clear_lines (engine_muted\<lparr>break_line_sound := Some 0\<rparr>)
     = Inr (engine_muted\<lparr>break_line_sound := Some 1,
              grid := replicate 19 (replicate 10 0) @ [[0, 3, 3, 3, 0, 0, 0, 0, 0, 0]],
              lines_cleared := 2, score := 4\<rparr>)"
  by code_simp

text \<open>
  Claim C6: a pass of \<^verbatim>\<open>clear_lines\<close> that returns has removed every full row and
  has added the square of their number to the score (one row adds 1, two rows add 4), and
  it has played the line-clear sound once if there was a full row and not at all if there
  was none; a pass over a grid with no full row returns the engine unchanged, whether a
  sound is held or not. A pass returns whenever a sound is held; the only raise is the
  \<^verbatim>\<open>AttributeError\<close> of an engine without sound on a grid with a full row, which
  happens before anything is assigned, so that no row is cleared and nothing is added.
\<close>

theorem clear_lines_adds_square:
  "(case clear_lines s of
      Inl e \<Rightarrow> e = AttributeError \<and> break_line_sound s = None \<and> 0 < full_rows (grid s)
    | Inr s' \<Rightarrow>
        grid s' = replicate (full_rows (grid s)) (replicate (nat GRID_WIDTH) 0)
                    @ filter (\<lambda>row. \<not> is_full row) (grid s)
        \<and> lines_cleared s' = lines_cleared s + int (full_rows (grid s))
        \<and> score s' = score s + (int (full_rows (grid s))) ^ 2
        \<and> break_line_sound s' =
            (if full_rows (grid s) = 0 then break_line_sound s
             else map_option Suc (break_line_sound s)))
   \<and> (break_line_sound s \<noteq> None \<longrightarrow> (\<exists>s'. clear_lines s = Inr s'))
   \<and> (full_rows (grid s) = 0 \<longrightarrow> clear_lines s = Inr s)
   \<and> (full_rows (grid s) = 1 \<longrightarrow> (\<forall>s'. clear_lines s = Inr s' \<longrightarrow> score s' = score s + 1))
   \<and> (full_rows (grid s) = 2 \<longrightarrow> (\<forall>s'. clear_lines s = Inr s' \<longrightarrow> score s' = score s + 4))"
proof -
  have "clear_lines s = Inr s" if "full_rows (grid s) = 0"
    using that by (simp add: clear_lines_cases no_full_rows_filter)
  then show ?thesis
    by (auto simp: clear_lines_cases)
qed

theorem clear_lines_adds_square_witness:
  "(\<exists>s'. clear_lines (engine grid_two_full piece_I) = Inr s'
        \<and> score s' = 4 \<and> lines_cleared s' = 2 \<and> break_line_sound s' = Some 1)
   \<and> clear_lines ((engine grid_bottom_block piece_I)\<lparr>break_line_sound := None\<rparr>)
       = Inr ((engine grid_bottom_block piece_I)\<lparr>break_line_sound := None\<rparr>)"
proof -
  let ?a = "engine grid_two_full piece_I"
  let ?b = "(engine grid_bottom_block piece_I)\<lparr>break_line_sound := None\<rparr>"
  have n: "full_rows (grid ?a) = 2" unfolding engine_def by code_simp
  have z: "full_rows (grid ?b) = 0" unfolding engine_def by code_simp
  have f: "break_line_sound ?a = Some 0" "score ?a = 0" "lines_cleared ?a = 0"
    by (simp_all add: engine_def)
  from clear_lines_adds_square [of ?a] f obtain s' where s': "clear_lines ?a = Inr s'" by auto
  with clear_lines_adds_square [of ?a] n f
  have a: "score s' = 4 \<and> lines_cleared s' = 2 \<and> break_line_sound s' = Some 1" by simp
  from clear_lines_adds_square [of ?b] z have b: "clear_lines ?b = Inr ?b" by blast
  from s' a b show ?thesis by blast
qed

section \<open>The frame update while halted\<close>

text \<open>
  Claim C8: when the engine is paused or the game is over, \<^verbatim>\<open>update\<close> returns at once:
  for every command set, clock value and random draw the whole engine state (grid, piece,
  score, lines cleared, level, drop interval and the three timestamps) is as before.
\<close>

theorem update_halted_unchanged:
  assumes "game_over s \<or> is_paused s"
  shows "update s commands current_time rnd = Inr s"
  using assms by (simp add: update_def)

theorem update_halted_unchanged_witness:
  "is_paused ((engine empty_grid piece_I)\<lparr>is_paused := True\<rparr>)
   \<and> update ((engine empty_grid piece_I)\<lparr>is_paused := True\<rparr>)
        {''move_left'', ''rotate'', ''move_down''} 5000 3
      = Inr ((engine empty_grid piece_I)\<lparr>is_paused := True\<rparr>)
   \<and> update ((engine empty_grid piece_I)\<lparr>game_over := True\<rparr>) {''move_down''} 5000 3
      = Inr ((engine empty_grid piece_I)\<lparr>game_over := True\<rparr>)"
  using update_halted_unchanged [of "(engine empty_grid piece_I)\<lparr>is_paused := True\<rparr>"
          "{''move_left'', ''rotate'', ''move_down''}" 5000 3]
        update_halted_unchanged [of "(engine empty_grid piece_I)\<lparr>game_over := True\<rparr>"
          "{''move_down''}" 5000 3]
  by simp

section \<open>Rotation\<close>

text \<open>
  Claim C5: \<^verbatim>\<open>Tetrimino.rotate\<close> changes nothing and returns \<^verbatim>\<open>last_rotation_time\<close>
  when \<open>current_time - last_rotation_time \<le> rotation_delay\<close>. Past the delay it computes
  the next rotation index, \<open>(rotation + 1) mod\<close> the number of rotations; if the piece
  fits there at its position, the index is committed, the rotate sound (when the engine
  holds one) is played once and \<^verbatim>\<open>current_time\<close> is returned; if it does not fit, the
  piece and the sound are as before and the old \<^verbatim>\<open>last_rotation_time\<close> is returned.
\<close>

theorem rotate_tetrimino_cases:
  "(current_time - last_time \<le> delay \<longrightarrow>
      rotate_tetrimino g t current_time last_time delay sd = Inr (t, sd, last_time))
   \<and> (current_time - last_time > delay \<and> rotations t \<noteq> [] \<longrightarrow>
        (can_fit g t (fst (position t)) (snd (position t))
            (Some ((rotation t + 1) mod int (length (rotations t)))) = Inr True \<longrightarrow>
         rotate_tetrimino g t current_time last_time delay sd
           = Inr (t\<lparr>rotation := (rotation t + 1) mod int (length (rotations t))\<rparr>,
                  map_option Suc sd, current_time))
      \<and> (can_fit g t (fst (position t)) (snd (position t))
            (Some ((rotation t + 1) mod int (length (rotations t)))) = Inr False \<longrightarrow>
         rotate_tetrimino g t current_time last_time delay sd = Inr (t, sd, last_time)))"
  by (auto simp: rotate_tetrimino_def Let_def split: option.splits)

theorem rotate_tetrimino_cases_witness:
  "rotate_tetrimino empty_grid piece_I 900 800 150 (Some 0) = Inr (piece_I, Some 0, 800)
   \<and> rotate_tetrimino empty_grid piece_I 1000 800 150 (Some 0)
       = Inr (piece_I\<lparr>rotation := 1\<rparr>, Some 1, 1000)
   \<and> rotate_tetrimino empty_grid (piece_I\<lparr>position := (0, 7)\<rparr>) 1000 800 150 (Some 0)
       = Inr (piece_I\<lparr>position := (0, 7)\<rparr>, Some 0, 800)"
proof -
  have n: "rotations piece_I \<noteq> []" "rotations (piece_I\<lparr>position := (0, 7)\<rparr>) \<noteq> []"
    by (simp_all add: piece_I_def)
  have next_rot: "(rotation piece_I + 1) mod int (length (rotations piece_I)) = 1"
    "(rotation (piece_I\<lparr>position := (0, 7)\<rparr>) + 1)
        mod int (length (rotations (piece_I\<lparr>position := (0, 7)\<rparr>))) = 1"
    by (simp_all add: piece_I_def)
  have fits: "can_fit empty_grid piece_I (fst (position piece_I)) (snd (position piece_I))
                (Some 1) = Inr True"
    by code_simp
  have fits_not: "can_fit empty_grid (piece_I\<lparr>position := (0, 7)\<rparr>)
                    (fst (position (piece_I\<lparr>position := (0, 7)\<rparr>)))
                    (snd (position (piece_I\<lparr>position := (0, 7)\<rparr>))) (Some 1) = Inr False"
    by code_simp
  show ?thesis
    using rotate_tetrimino_cases [of 900 800 150 empty_grid piece_I "Some 0"]
      rotate_tetrimino_cases [of 1000 800 150 empty_grid piece_I "Some 0"]
      rotate_tetrimino_cases [of 1000 800 150 empty_grid "piece_I\<lparr>position := (0, 7)\<rparr>" "Some 0"]
      n next_rot fits fits_not
    by simp
qed

section \<open>Spawning\<close>

lemma Tetrimino_init_keys:
  "list_all (\<lambda>k. case Tetrimino_init k of Inl e \<Rightarrow> False | Inr t \<Rightarrow> spawn_ok t)
     (map fst TETRIMINOS)"
  by code_simp

lemma random_choice_mem:
  "xs \<noteq> [] \<Longrightarrow> \<exists>x \<in> set xs. random_choice rnd xs = Inr x"
  by (simp add: random_choice_def)

lemma keys_nonempty: "map fst TETRIMINOS \<noteq> []"
  by (simp add: TETRIMINOS_def)

lemma spawn_piece:
  "\<exists>k t. random_choice rnd (map fst TETRIMINOS) = Inr k \<and> Tetrimino_init k = Inr t \<and> spawn_ok t"
proof -
  from random_choice_mem [OF keys_nonempty, of rnd] obtain k where
    k: "k \<in> set (map fst TETRIMINOS)" and c: "random_choice rnd (map fst TETRIMINOS) = Inr k"
    by blast
  from k Tetrimino_init_keys obtain t where "Tetrimino_init k = Inr t" "spawn_ok t"
    unfolding list_all_iff by (fastforce split: sum.splits)
  with c show ?thesis by blast
qed

lemma grid_ok_rectangular: "grid_ok g \<Longrightarrow> rectangular g"
  by (cases g) (auto simp: grid_ok_def rectangular_def)

lemma can_fit_returns:
  assumes "rectangular g" and "0 \<le> row"
    and "0 \<le> k" and "k < int (length (rotations t))"
    and "k = (case rot of None \<Rightarrow> rotation t | Some k' \<Rightarrow> k')"
  shows "can_fit g t row col rot = Inr (\<not> spec_rejects g (fst (rotations t ! nat k)) row col)"
  using assms(3,4,5)
  by (simp add: can_fit_def fit_lines_rejects [OF assms(1,2)] py_index_nonneg)

lemma new_tetrimino_result:
  assumes "rectangular (grid s)"
  shows "\<exists>t b. spawn_ok t \<and> can_fit (grid s) t 0 4 None = Inr b
           \<and> new_tetrimino s rnd = Inr (if b then s else s\<lparr>game_over := True\<rparr>, t)"
proof -
  from spawn_piece [of rnd] obtain k t where
    c: "random_choice rnd (map fst TETRIMINOS) = Inr k" and i: "Tetrimino_init k = Inr t"
    and t: "spawn_ok t"
    by blast
  have "can_fit (grid s) t 0 4 None = Inr (\<not> spec_rejects (grid s) (fst (rotations t ! nat 0)) 0 4)"
    using t by (intro can_fit_returns [OF assms]) (simp_all add: spawn_ok_def)
  then show ?thesis
    using c i t
    by (intro exI [of _ t] exI [of _ "\<not> spec_rejects (grid s) (fst (rotations t ! nat 0)) 0 4"])
       (simp add: new_tetrimino_def)
qed



section \<open>Reset\<close>

lemma reset_game_fields:
  assumes "reset_game s rnd = Inr s'"
  shows "grid s' = grid s" and "drop_speed s' = drop_speed s"
    and "last_drop_time s' = last_drop_time s"
    and "score s' = 0" and "lines_cleared s' = 0" and "level s' = 1"
    and "\<not> game_over s'" and "\<not> is_paused s'"
  using assms
  by (auto simp: reset_game_def new_tetrimino_def Let_def split: sum.splits if_splits)

text \<open>
  Claim C4 says that \<^verbatim>\<open>reset_game\<close> restores every component of the engine state to
  its value at engine start, the grid and the drop interval among them, and the method's
  own documentation says that it clears the grid. The code assigns the score, the lines
  cleared, the level, the piece and the two flags only: in an engine that has played, the
  blocks stay on the grid and the drop interval keeps the value it had.
\<close>

theorem reset_game_keeps_grid_and_speed:
  "reset_game engine_played 0
     = Inr (engine_played\<lparr>score := 0, lines_cleared := 0, level := 1\<rparr>)
   \<and> grid (engine_played\<lparr>score := 0, lines_cleared := 0, level := 1\<rparr>) = grid_bottom_block
   \<and> grid_bottom_block \<noteq> replicate (nat GRID_HEIGHT) (replicate (nat GRID_WIDTH) 0)
   \<and> drop_speed (engine_played\<lparr>score := 0, lines_cleared := 0, level := 1\<rparr>) = 990"
  by code_simp

section \<open>Level and drop interval\<close>

lemma update_level_speed:
  assumes "100 \<le> drop_speed s" and "1 \<le> level s"
  shows "100 \<le> drop_speed (update_level s)" and "drop_speed (update_level s) \<le> drop_speed s"
    and "level s \<le> level (update_level s)"
  using assms
  by (auto simp: update_level_def adjust_game_speed_def Let_def LEVEL_SPEED_INCREMENT_def)

lemma update_level_level:
  assumes "level s \<le> 1 + lines_cleared s div LEVEL_CHANGE_LINES"
  shows "level (update_level s) = 1 + lines_cleared (update_level s) div LEVEL_CHANGE_LINES"
  using assms by (auto simp: update_level_def adjust_game_speed_def Let_def)

text \<open>
  Claim C7 says that after every engine operation the level is
  \<open>1 + lines_cleared div LEVEL_CHANGE_LINES\<close>. A piece that cannot move down when the drop
  is attempted is locked by \<^verbatim>\<open>attempt_to_drop\<close>, which clears the lines and spawns but,
  unlike the lock in \<^verbatim>\<open>drop_tetrimino\<close>, does not call \<^verbatim>\<open>update_level\<close>. Here the
  vertical I piece is rotated over the gap of row 14 in the frame in which the drop is due:
  the tenth line is cleared and the level stays 1.
\<close>

theorem update_lock_without_level_update:
  "(case update engine_tuck {''rotate''} 2000 3 of
      Inl e \<Rightarrow> False
    | Inr s \<Rightarrow> lines_cleared s = 10 \<and> level s = 1
               \<and> level s \<noteq> 1 + lines_cleared s div LEVEL_CHANGE_LINES
               \<and> drop_speed s = 1000)
   \<and> level engine_tuck = 1 + lines_cleared engine_tuck div LEVEL_CHANGE_LINES"
  by code_simp

lemma drop_lock_updates_level:
  "(case update (engine_tuck\<lparr>current_tetrimino := piece_I\<lparr>rotation := 1, position := (13, 6)\<rparr>\<rparr>)
           {} 2000 3 of
      Inl e \<Rightarrow> False
    | Inr s \<Rightarrow> lines_cleared s = 10 \<and> level s = 2 \<and> drop_speed s = 990)"
  by code_simp

section \<open>Invariants of the engine\<close>

lemma catalog_cells_ok:
  "\<forall>(k, rots, c) \<in> set TETRIMINOS. \<forall>(m, c') \<in> set rots. cells_ok m"
  by code_simp

lemma catalog_spawn_in_field:
  "\<forall>(k, rots, c) \<in> set TETRIMINOS.
      rots \<noteq> [] \<and> (\<forall>(i, j) \<in> set (filled_cells (fst (rots ! 0))).
                       int i < GRID_HEIGHT \<and> 4 + int j < GRID_WIDTH)"
  by code_simp

lemma py_index_mem: "py_index xs i = Inr x \<Longrightarrow> x \<in> set xs"
  by (auto simp: py_index_def Let_def split: if_splits)

lemma py_setitem_length: "py_setitem xs i v = Inr ys \<Longrightarrow> length ys = length xs"
  by (auto simp: py_setitem_def Let_def split: if_splits)

lemma py_setitem_set: "py_setitem xs i v = Inr ys \<Longrightarrow> set ys \<subseteq> insert v (set xs)"
  by (auto simp: py_setitem_def Let_def split: if_splits
           dest: set_update_subset_insert [THEN subsetD])

lemma py_setitem_nonneg:
  "0 \<le> i \<Longrightarrow> i < int (length xs) \<Longrightarrow> py_setitem xs i v = Inr (xs[nat i := v])"
  by (simp add: py_setitem_def Let_def)

lemma from_catalog_cells:
  assumes "from_catalog t" and "py_index (rotations t) k = Inr entry"
  shows "cells_ok (fst entry)"
proof -
  have "entry \<in> set (rotations t)" using assms(2) by (rule py_index_mem)
  with assms(1) catalog_cells_ok show ?thesis
    unfolding from_catalog_def by (cases entry) fastforce
qed

lemma grid_ok_dims:
  assumes "grid_ok g"
  shows "height g = GRID_HEIGHT" and "width g = GRID_WIDTH"
    and "\<And>r. 0 \<le> r \<Longrightarrow> r < height g \<Longrightarrow> int (length (g ! nat r)) = GRID_WIDTH"
proof -
  show h: "height g = GRID_HEIGHT"
    using assms by (simp add: grid_ok_def height_def GRID_HEIGHT_def SCREEN_HEIGHT_def CELL_SIZE_def)
  then have "g \<noteq> []"
    by (auto simp: height_def GRID_HEIGHT_def SCREEN_HEIGHT_def CELL_SIZE_def)
  then show "width g = GRID_WIDTH"
    using assms
    by (cases g) (auto simp: grid_ok_def width_def GRID_WIDTH_def SCREEN_WIDTH_def CELL_SIZE_def)
  show "int (length (g ! nat r)) = GRID_WIDTH" if "0 \<le> r" "r < height g" for r
  proof -
    have "g ! nat r \<in> set g" using that by (simp add: height_def nat_less_iff)
    with assms show ?thesis
      by (auto simp: grid_ok_def GRID_WIDTH_def SCREEN_WIDTH_def CELL_SIZE_def)
  qed
qed

lemma spawn_in_field:
  assumes "spawn_ok t" and "grid_ok g"
  shows "in_field g t"
proof -
  from assms(1) have mem: "(shape t, rotations t, color t) \<in> set TETRIMINOS"
    and pos: "position t = (0, 4)" and rot: "rotation t = 0"
    by (simp_all add: spawn_ok_def from_catalog_def)
  from catalog_spawn_in_field mem
  have "rotations t \<noteq> [] \<and> (\<forall>(i, j) \<in> set (filled_cells (fst (rotations t ! 0))).
                       int i < GRID_HEIGHT \<and> 4 + int j < GRID_WIDTH)"
    by fastforce
  then show ?thesis
    using pos rot grid_ok_dims(1,2) [OF assms(2)] by (auto simp: in_field_def)
qed

lemma can_fit_in_field:
  assumes "rectangular g" and "0 \<le> row"
    and "0 \<le> k" and "k < int (length (rotations t))"
    and "k = (case rot of None \<Rightarrow> rotation t | Some k' \<Rightarrow> k')"
  shows "\<exists>b. can_fit g t row col rot = Inr b
           \<and> (b \<longrightarrow> in_field g (t\<lparr>rotation := k, position := (row, col)\<rparr>))"
proof -
  let ?m = "fst (rotations t ! nat k)"
  have c: "can_fit g t row col rot = Inr (\<not> spec_rejects g ?m row col)"
    by (rule can_fit_returns [OF assms])
  have "in_field g (t\<lparr>rotation := k, position := (row, col)\<rparr>)" if "\<not> spec_rejects g ?m row col"
    using that assms(2,3,4)
    by (fastforce simp: in_field_def spec_rejects_def spec_blocks_def)
  with c show ?thesis by simp
qed

lemma place_line_ok:
  assumes "place_line g r col j cells = Inr g'" and "grid_ok g"
    and "\<forall>cell \<in> set cells. 0 \<le> cell \<and> cell \<le> 7"
  shows "grid_ok g'"
  using assms
proof (induction cells arbitrary: g j)
  case Nil
  then show ?case by simp
next
  case (Cons cell cells)
  show ?case
  proof (cases "cell > 0")
    case False
    with Cons show ?thesis by simp
  next
    case True
    with Cons.prems(1) obtain gr gr' g1 where
      gr: "py_index g r = Inr gr" and gr': "py_setitem gr (col + int j) cell = Inr gr'"
      and g1: "py_setitem g r gr' = Inr g1" and rest: "place_line g1 r col (Suc j) cells = Inr g'"
      by (auto split: sum.splits)
    have "gr \<in> set g" using gr by (rule py_index_mem)
    with Cons.prems(2,3) py_setitem_length [OF gr'] py_setitem_set [OF gr']
    have row: "length gr' = nat GRID_WIDTH \<and> (\<forall>c \<in> set gr'. 0 \<le> c \<and> c \<le> 7)"
      unfolding grid_ok_def by auto
    have "grid_ok g1"
      using Cons.prems(2) row py_setitem_length [OF g1] py_setitem_set [OF g1]
      unfolding grid_ok_def by auto
    with Cons.IH [OF rest] Cons.prems(3) show ?thesis by simp
  qed
qed

lemma place_lines_ok:
  assumes "place_lines g row col i m = Inr g'" and "grid_ok g" and "cells_ok m"
  shows "grid_ok g'"
  using assms
proof (induction m arbitrary: g i)
  case Nil
  then show ?case by simp
next
  case (Cons line lines)
  from Cons.prems(1) obtain g1 where
    l: "place_line g (row + int i) col 0 line = Inr g1"
    and rest: "place_lines g1 row col (Suc i) lines = Inr g'"
    by (auto split: sum.splits)
  have "grid_ok g1"
    using place_line_ok [OF l Cons.prems(2)] Cons.prems(3) by (simp add: cells_ok_def)
  with Cons.IH [OF rest] Cons.prems(3) show ?case by (simp add: cells_ok_def)
qed

lemma place_line_returns:
  assumes "grid_ok g" and "0 \<le> r" and "r < height g"
    and "\<forall>k < length cells. cells ! k > 0 \<longrightarrow>
           0 \<le> col + int (j + k) \<and> col + int (j + k) < width g"
    and "\<forall>cell \<in> set cells. 0 \<le> cell \<and> cell \<le> 7"
  shows "\<exists>g'. place_line g r col j cells = Inr g'"
  using assms
proof (induction cells arbitrary: g j)
  case Nil
  then show ?case by simp
next
  case (Cons cell cells)
  have tl: "\<forall>k < length cells. cells ! k > 0 \<longrightarrow>
              0 \<le> col + int (Suc j + k) \<and> col + int (Suc j + k) < width g1" 
    if "width g1 = width g" for g1
    using Cons.prems(4) that by fastforce
  show ?case
  proof (cases "cell > 0")
    case False
    with Cons.IH [OF Cons.prems(1,2,3) tl] Cons.prems(5) show ?thesis by simp
  next
    case True
    let ?c = "col + int j"
    from Cons.prems(4) True have c: "0 \<le> ?c" "?c < width g" by fastforce+
    have r: "r < int (length g)" using Cons.prems(3) by (simp add: height_def)
    have w: "int (length (g ! nat r)) = width g"
      using grid_ok_dims [OF Cons.prems(1)] Cons.prems(2,3) by simp
    let ?g1 = "g[nat r := (g ! nat r)[nat ?c := cell]]"
    have step: "place_line g r col j (cell # cells) = place_line ?g1 r col (Suc j) cells"
      using True c r w Cons.prems(2)
      by (simp add: py_index_nonneg py_setitem_nonneg)
    have "place_line g r col j [cell] = Inr ?g1"
      using True c r w Cons.prems(2)
      by (simp add: py_index_nonneg py_setitem_nonneg)
    then have ok1: "grid_ok ?g1"
      using place_line_ok [of g r col j "[cell]" ?g1] Cons.prems(1,5) by simp
    have d: "height ?g1 = height g" "width ?g1 = width g"
      using grid_ok_dims(1,2) [OF ok1] grid_ok_dims(1,2) [OF Cons.prems(1)] by simp_all
    from Cons.IH [OF ok1 Cons.prems(2) _ tl [OF d(2)]] d Cons.prems(3,5) step
    show ?thesis by simp
  qed
qed

lemma place_lines_returns:
  assumes "grid_ok g" and "0 \<le> row"
    and "\<forall>a < length m. \<forall>k < length (m ! a). m ! a ! k > 0 \<longrightarrow>
           row + int (i + a) < height g \<and> 0 \<le> col + int k \<and> col + int k < width g"
    and "cells_ok m"
  shows "\<exists>g'. place_lines g row col i m = Inr g'"
  using assms
proof (induction m arbitrary: g i)
  case Nil
  then show ?case by simp
next
  case (Cons line lines)
  have hd: "\<forall>k < length line. line ! k > 0 \<longrightarrow>
              0 \<le> col + int (0 + k) \<and> col + int (0 + k) < width g"
    and r: "line \<noteq> [] \<and> (\<exists>k < length line. line ! k > 0) \<longrightarrow> row + int i < height g"
    using Cons.prems(3) by fastforce+
  have cells: "\<forall>cell \<in> set line. 0 \<le> cell \<and> cell \<le> 7" and rest_ok: "cells_ok lines"
    using Cons.prems(4) by (simp_all add: cells_ok_def)
  have "\<exists>g1. place_line g (row + int i) col 0 line = Inr g1"
  proof (cases "\<exists>k < length line. line ! k > 0")
    case True
    with r have "row + int i < height g" by auto
    with Cons.prems(1,2) hd cells show ?thesis
      by (intro place_line_returns) simp_all
  next
    case False
    then have "\<forall>cell \<in> set line. \<not> cell > 0" by (auto simp: in_set_conv_nth)
    then have "place_line g (row + int i) col j' line = Inr g" for j'
      by (induction line arbitrary: j') simp_all
    then show ?thesis by blast
  qed
  then obtain g1 where l: "place_line g (row + int i) col 0 line = Inr g1" by blast
  have ok1: "grid_ok g1" using place_line_ok [OF l Cons.prems(1) cells] .
  have d: "height g1 = height g" "width g1 = width g"
    using grid_ok_dims(1,2) [OF ok1] grid_ok_dims(1,2) [OF Cons.prems(1)] by simp_all
  have tl: "\<forall>a < length lines. \<forall>k < length (lines ! a). lines ! a ! k > 0 \<longrightarrow>
              row + int (Suc i + a) < height g1 \<and> 0 \<le> col + int k \<and> col + int k < width g1"
    using Cons.prems(3) d by fastforce
  from Cons.IH [OF ok1 Cons.prems(2) tl rest_ok] l show ?case by simp
qed

lemma in_field_cells:
  assumes "in_field g t"
  shows "py_index (rotations t) (rotation t) = Inr (rotations t ! nat (rotation t))"
    and "\<forall>a < length (fst (rotations t ! nat (rotation t))).
           \<forall>k < length (fst (rotations t ! nat (rotation t)) ! a).
             fst (rotations t ! nat (rotation t)) ! a ! k > 0 \<longrightarrow>
               fst (position t) + int (0 + a) < height g
               \<and> 0 \<le> snd (position t) + int k \<and> snd (position t) + int k < width g"
  using assms by (auto simp: in_field_def py_index_nonneg set_filled_cells)

lemma place_tetrimino_returns:
  assumes "engine_ok s" and "in_field (grid s) (current_tetrimino s)"
  shows "\<exists>g'. place_tetrimino s = Inr (s\<lparr>grid := g'\<rparr>) \<and> grid_ok g'"
proof -
  let ?t = "current_tetrimino s"
  let ?m = "fst (rotations ?t ! nat (rotation ?t))"
  note f = in_field_cells [OF assms(2)]
  have ok: "grid_ok (grid s)" and cat: "from_catalog ?t"
    using assms(1) by (simp_all add: engine_ok_def)
  have cells: "cells_ok ?m" using from_catalog_cells [OF cat f(1)] .
  have row: "0 \<le> fst (position ?t)" using assms(2) by (simp add: in_field_def)
  from place_lines_returns [OF ok row f(2) cells] obtain g' where
    p: "place_lines (grid s) (fst (position ?t)) (snd (position ?t)) 0 ?m = Inr g'"
    by blast
  have "grid_ok g'" using place_lines_ok [OF p ok cells] .
  with p f(1) show ?thesis
    by (auto simp: place_tetrimino_def get_current_shape_def)
qed

lemma place_tetrimino_ok:
  assumes "place_tetrimino s = Inr s'" and "engine_ok s"
  shows "engine_ok s'"
proof -
  from assms(1) obtain entry g' where
    e: "py_index (rotations (current_tetrimino s)) (rotation (current_tetrimino s)) = Inr entry"
    and p: "place_lines (grid s) (fst (position (current_tetrimino s)))
              (snd (position (current_tetrimino s))) 0 (fst entry) = Inr g'"
    and s': "s' = s\<lparr>grid := g'\<rparr>"
    by (auto simp: place_tetrimino_def get_current_shape_def split: sum.splits)
  have "cells_ok (fst entry)"
    using assms(2) e by (auto simp: engine_ok_def intro: from_catalog_cells)
  with place_lines_ok [OF p] assms(2) s' show ?thesis by (simp add: engine_ok_def)
qed

lemma clear_lines_grid:
  assumes "clear_lines s = Inr s'"
  shows "grid s' = replicate (full_rows (grid s)) (replicate (nat GRID_WIDTH) 0)
                     @ filter (\<lambda>row. \<not> is_full row) (grid s)"
    and "current_tetrimino s' = current_tetrimino s"
  using assms
  by (auto simp: clear_lines_def clear_loop_filter full_rows_def split: sum.splits if_splits)

lemma cleared_grid_ok:
  assumes "grid_ok g"
  shows "grid_ok (replicate (full_rows g) (replicate (nat GRID_WIDTH) 0)
                    @ filter (\<lambda>row. \<not> is_full row) g)"
proof -
  have "length (filter is_full g) + length (filter (\<lambda>row. \<not> is_full row) g) = length g"
    by (rule sum_length_filter_compl)
  with assms show ?thesis
    unfolding grid_ok_def full_rows_def by auto
qed

lemma clear_lines_ok:
  assumes "clear_lines s = Inr s'" and "engine_ok s"
  shows "engine_ok s'"
  using assms(2) cleared_grid_ok [of "grid s"]
  unfolding engine_ok_def clear_lines_grid [OF assms(1)] by simp

lemma update_level_frame:
  "grid (update_level s) = grid s"
  "current_tetrimino (update_level s) = current_tetrimino s"
  "break_line_sound (update_level s) = break_line_sound s"
  "game_over (update_level s) = game_over s"
  "lines_cleared (update_level s) = lines_cleared s"
  "score (update_level s) = score s"
  by (simp_all add: update_level_def adjust_game_speed_def Let_def)

lemma playableI:
  assumes "grid_ok (grid s)" and "spawn_ok (current_tetrimino s)" and "break_line_sound s \<noteq> None"
  shows "playable s"
  using assms spawn_in_field [OF assms(2,1)] by (simp add: playable_def engine_ok_def spawn_ok_def)

lemma clear_lines_returns:
  assumes "grid_ok (grid s)" and "break_line_sound s \<noteq> None"
  shows "\<exists>s'. clear_lines s = Inr s' \<and> grid_ok (grid s') \<and> break_line_sound s' \<noteq> None
           \<and> game_over s' = game_over s"
  using assms cleared_grid_ok [OF assms(1)]
  by (auto simp: clear_lines_result)

lemma lock_and_spawn_returns:
  assumes "playable s"
  shows "\<exists>s1 s2 t b. place_tetrimino s = Inr s1 \<and> clear_lines s1 = Inr s2
           \<and> spawn_ok t \<and> can_fit (grid s2) t 0 4 None = Inr b
           \<and> lock_and_spawn s rnd
               = Inr ((if b then update_level s2 else (update_level s2)\<lparr>game_over := True\<rparr>)
                        \<lparr>current_tetrimino := t\<rparr>)
           \<and> grid_ok (grid s2) \<and> break_line_sound s2 \<noteq> None \<and> game_over s2 = game_over s"
proof -
  from assms have e: "engine_ok s" and f: "in_field (grid s) (current_tetrimino s)"
    and b: "break_line_sound s \<noteq> None"
    by (simp_all add: playable_def)
  from place_tetrimino_returns [OF e f] obtain g1 where
    p: "place_tetrimino s = Inr (s\<lparr>grid := g1\<rparr>)" and g1: "grid_ok g1"
    by blast
  from clear_lines_returns [of "s\<lparr>grid := g1\<rparr>"] g1 b obtain s2 where
    c: "clear_lines (s\<lparr>grid := g1\<rparr>) = Inr s2" and g2: "grid_ok (grid s2)"
    and b2: "break_line_sound s2 \<noteq> None" and go: "game_over s2 = game_over s"
    by auto
  have r: "rectangular (grid (update_level s2))"
    using g2 by (simp add: update_level_frame grid_ok_rectangular)
  from new_tetrimino_result [OF r, of rnd] obtain t bb where
    t: "spawn_ok t" and cf: "can_fit (grid s2) t 0 4 None = Inr bb"
    and n: "new_tetrimino (update_level s2) rnd
              = Inr (if bb then update_level s2 else (update_level s2)\<lparr>game_over := True\<rparr>, t)"
    by (auto simp: update_level_frame)
  have "lock_and_spawn s rnd
          = Inr ((if bb then update_level s2 else (update_level s2)\<lparr>game_over := True\<rparr>)
                   \<lparr>current_tetrimino := t\<rparr>)"
    using p c n cf by (simp add: lock_and_spawn_def update_level_frame)
  with p c t cf g2 b2 go show ?thesis by blast
qed

lemma lock_and_spawn_playable:
  assumes "playable s"
  shows "\<exists>s'. lock_and_spawn s rnd = Inr s' \<and> playable s'"
proof -
  from lock_and_spawn_returns [OF assms, of rnd] obtain s2 t b where
    t: "spawn_ok t"
    and l: "lock_and_spawn s rnd
               = Inr ((if b then update_level s2 else (update_level s2)\<lparr>game_over := True\<rparr>)
                        \<lparr>current_tetrimino := t\<rparr>)"
    and g: "grid_ok (grid s2)" and snd: "break_line_sound s2 \<noteq> None"
    by blast
  have "playable ((if b then update_level s2 else (update_level s2)\<lparr>game_over := True\<rparr>)
                        \<lparr>current_tetrimino := t\<rparr>)"
    using t g snd by (intro playableI) (simp_all add: update_level_frame)
  with l show ?thesis by simp
qed

lemma try_move:
  assumes "playable s" and "0 \<le> row"
  shows "\<exists>b. can_fit (grid s) (current_tetrimino s) row col None = Inr b
           \<and> (b \<longrightarrow> playable (s\<lparr>current_tetrimino := (current_tetrimino s)\<lparr>position := (row, col)\<rparr>\<rparr>))"
proof -
  let ?t = "current_tetrimino s"
  from assms(1) have ok: "grid_ok (grid s)" and cat: "from_catalog ?t"
    and f: "in_field (grid s) ?t" and b: "break_line_sound s \<noteq> None"
    by (simp_all add: playable_def engine_ok_def)
  from f have k: "0 \<le> rotation ?t" "rotation ?t < int (length (rotations ?t))"
    by (simp_all add: in_field_def)
  from can_fit_in_field [OF grid_ok_rectangular [OF ok] assms(2) k, of None col]
  obtain bb where c: "can_fit (grid s) ?t row col None = Inr bb"
    and i: "bb \<longrightarrow> in_field (grid s) (?t\<lparr>rotation := rotation ?t, position := (row, col)\<rparr>)"
    by auto
  have "playable (s\<lparr>current_tetrimino := ?t\<lparr>position := (row, col)\<rparr>\<rparr>)" if bb
    using that i ok cat b by (simp add: playable_def engine_ok_def from_catalog_def)
  with c show ?thesis by blast
qed

lemma playable_row: "playable s \<Longrightarrow> 0 \<le> fst (position (current_tetrimino s))"
  by (simp add: playable_def in_field_def)

lemma drop_tetrimino_playable:
  assumes "playable s"
  shows "\<exists>s' d. drop_tetrimino s rnd = Inr (s', d) \<and> playable s' \<and> (\<not> d \<longrightarrow> s' = s)"
proof -
  let ?t = "current_tetrimino s"
  let ?s1 = "s\<lparr>current_tetrimino := move_down ?t\<rparr>"
  have row: "0 \<le> fst (position ?t) + 1" using playable_row [OF assms] by simp
  from try_move [OF assms row, of "snd (position ?t)"] obtain b where
    c: "can_fit (grid s) ?t (fst (position ?t) + 1) (snd (position ?t)) None = Inr b"
    and p1: "b \<longrightarrow> playable ?s1"
    by (auto simp: move_down_def)
  show ?thesis
  proof (cases b)
    case False
    with c have "drop_tetrimino s rnd = Inr (s, False)" by (simp add: drop_tetrimino_def)
    with assms show ?thesis by blast
  next
    case True
    with p1 have p: "playable ?s1" by simp
    have row2: "0 \<le> fst (position (move_down ?t)) + 1"
      using playable_row [OF p] by simp
    from try_move [OF p row2, of "snd (position (move_down ?t))"] obtain b2 where
      c2: "can_fit (grid s) (move_down ?t) (fst (position (move_down ?t)) + 1)
             (snd (position (move_down ?t))) None = Inr b2"
      by auto
    show ?thesis
    proof (cases b2)
      case True
      with c c2 \<open>b\<close> have "drop_tetrimino s rnd = Inr (?s1, True)"
        by (simp add: drop_tetrimino_def Let_def)
      with p show ?thesis by blast
    next
      case False
      from lock_and_spawn_playable [OF p, of rnd] obtain s' where
        "lock_and_spawn ?s1 rnd = Inr s'" "playable s'"
        by blast
      with c c2 \<open>b\<close> False have "drop_tetrimino s rnd = Inr (s', True)"
        by (simp add: drop_tetrimino_def Let_def)
      with \<open>playable s'\<close> show ?thesis by blast
    qed
  qed
qed

lemma attempt_to_drop_playable:
  assumes "playable s"
  shows "\<exists>s'. attempt_to_drop s current_time rnd = Inr s' \<and> playable s'"
proof -
  from drop_tetrimino_playable [OF assms, of rnd] obtain s1 d where
    d: "drop_tetrimino s rnd = Inr (s1, d)" and p1: "playable s1" and same: "\<not> d \<longrightarrow> s1 = s"
    by blast
  show ?thesis
  proof (cases d)
    case True
    with d p1 show ?thesis by (simp add: attempt_to_drop_def playable_def engine_ok_def)
  next
    case False
    from p1 have e: "engine_ok s1" and f: "in_field (grid s1) (current_tetrimino s1)"
      and b: "break_line_sound s1 \<noteq> None"
      by (simp_all add: playable_def)
    from place_tetrimino_returns [OF e f] obtain g1 where
      p: "place_tetrimino s1 = Inr (s1\<lparr>grid := g1\<rparr>)" and g1: "grid_ok g1"
      by blast
    from clear_lines_returns [of "s1\<lparr>grid := g1\<rparr>"] g1 b obtain s3 where
      c: "clear_lines (s1\<lparr>grid := g1\<rparr>) = Inr s3" and g3: "grid_ok (grid s3)"
      and b3: "break_line_sound s3 \<noteq> None"
      by auto
    from new_tetrimino_result [OF grid_ok_rectangular [OF g3], of rnd] obtain t bb where
      t: "spawn_ok t"
      and n: "new_tetrimino s3 rnd = Inr (if bb then s3 else s3\<lparr>game_over := True\<rparr>, t)"
      by blast
    let ?s' = "(if bb then s3 else s3\<lparr>game_over := True\<rparr>)
                  \<lparr>current_tetrimino := t, last_drop_time := current_time\<rparr>"
    have "attempt_to_drop s current_time rnd = Inr ?s'"
      using d False p c n by (simp add: attempt_to_drop_def)
    moreover have "playable ?s'"
      using t g3 b3 by (intro playableI) simp_all
    ultimately show ?thesis by blast
  qed
qed

lemma handle_automatic_drop_playable:
  assumes "playable s"
  shows "\<exists>s'. handle_automatic_drop s current_time commands rnd = Inr s' \<and> playable s'"
  using attempt_to_drop_playable [OF assms, of current_time rnd] assms
  by (auto simp: handle_automatic_drop_def)

lemma handle_moves_playable:
  assumes "playable s"
  shows "\<exists>s'. handle_moves s current_time commands = Inr s' \<and> playable s'"
proof (cases "current_time - last_move_time s > move_speed s")
  case False
  with assms show ?thesis by (simp add: handle_moves_def)
next
  case True
  let ?t = "current_tetrimino s"
  let ?tl = "?t\<lparr>position := (fst (position ?t), snd (position ?t) - 1)\<rparr>"
  have "\<exists>left. (if ''move_left'' \<in> commands
               then can_fit (grid s) ?t (fst (position ?t)) (snd (position ?t) - 1) None
               else Inr False) = Inr left
          \<and> playable (s\<lparr>current_tetrimino := (if left then ?tl else ?t)\<rparr>)"
  proof (cases "''move_left'' \<in> commands")
    case False
    with assms show ?thesis by (intro exI [of _ False]) simp
  next
    case True
    from try_move [OF assms playable_row [OF assms], of "snd (position ?t) - 1"] obtain b where
      "can_fit (grid s) ?t (fst (position ?t)) (snd (position ?t) - 1) None = Inr b"
      "b \<longrightarrow> playable (s\<lparr>current_tetrimino := ?tl\<rparr>)"
      by blast
    with True assms show ?thesis by (intro exI [of _ b]) simp
  qed
  then obtain left where
    l: "(if ''move_left'' \<in> commands
         then can_fit (grid s) ?t (fst (position ?t)) (snd (position ?t) - 1) None
         else Inr False) = Inr left"
    and p1: "playable (s\<lparr>current_tetrimino := (if left then ?tl else ?t)\<rparr>)"
    by blast
  let ?t1 = "if left then ?tl else ?t"
  let ?s1 = "s\<lparr>current_tetrimino := ?t1\<rparr>"
  let ?tr = "?t1\<lparr>position := (fst (position ?t1), snd (position ?t1) + 1)\<rparr>"
  have "\<exists>right. (if ''move_right'' \<in> commands
               then can_fit (grid s) ?t1 (fst (position ?t1)) (snd (position ?t1) + 1) None
               else Inr False) = Inr right
          \<and> playable (s\<lparr>current_tetrimino := (if right then ?tr else ?t1)\<rparr>)"
  proof (cases "''move_right'' \<in> commands")
    case False
    with p1 show ?thesis by (intro exI [of _ False]) simp
  next
    case True
    from try_move [OF p1 playable_row [OF p1], of "snd (position ?t1) + 1"] obtain b where
      "can_fit (grid s) ?t1 (fst (position ?t1)) (snd (position ?t1) + 1) None = Inr b"
      "b \<longrightarrow> playable (s\<lparr>current_tetrimino := ?tr\<rparr>)"
      by auto
    with True p1 show ?thesis by (intro exI [of _ b]) simp
  qed
  then obtain right where
    r: "(if ''move_right'' \<in> commands
         then can_fit (grid s) ?t1 (fst (position ?t1)) (snd (position ?t1) + 1) None
         else Inr False) = Inr right"
    and p2: "playable (s\<lparr>current_tetrimino := (if right then ?tr else ?t1)\<rparr>)"
    by blast
  let ?t2 = "if right then ?tr else ?t1"
  have "handle_moves s current_time commands
          = Inr (s\<lparr>current_tetrimino := ?t2, last_move_time := current_time\<rparr>)"
    using True l r by (simp add: handle_moves_def Let_def)
  moreover have "playable (s\<lparr>current_tetrimino := ?t2, last_move_time := current_time\<rparr>)"
    using p2 by (simp add: playable_def engine_ok_def)
  ultimately show ?thesis by blast
qed

lemma handle_rotation_playable:
  assumes "playable s"
  shows "\<exists>s'. handle_rotation s current_time commands = Inr s' \<and> playable s'"
proof (cases "''rotate'' \<in> commands \<and> current_time - last_rotation_time s > rotation_delay s")
  case False
  with assms show ?thesis
    by (auto simp: handle_rotation_def rotate_tetrimino_def playable_def engine_ok_def)
next
  case True
  let ?t = "current_tetrimino s"
  let ?k = "(rotation ?t + 1) mod int (length (rotations ?t))"
  from assms have ok: "grid_ok (grid s)" and cat: "from_catalog ?t"
    and f: "in_field (grid s) ?t" and b: "break_line_sound s \<noteq> None"
    by (simp_all add: playable_def engine_ok_def)
  from f have ne: "rotations ?t \<noteq> []" by (auto simp: in_field_def)
  then have k: "0 \<le> ?k" "?k < int (length (rotations ?t))" by simp_all
  from can_fit_in_field [OF grid_ok_rectangular [OF ok] playable_row [OF assms] k,
      of "Some ?k" "snd (position ?t)"]
  obtain bb where
    c: "can_fit (grid s) ?t (fst (position ?t)) (snd (position ?t)) (Some ?k) = Inr bb"
    and i: "bb \<longrightarrow> in_field (grid s) (?t\<lparr>rotation := ?k\<rparr>)"
    by auto
  show ?thesis
  proof (cases bb)
    case False
    with True c ne assms show ?thesis
      by (simp add: handle_rotation_def rotate_tetrimino_def Let_def playable_def engine_ok_def)
  next
    case bb: True
    have "playable (s\<lparr>current_tetrimino := ?t\<lparr>rotation := ?k\<rparr>, rotate_sound := sd,
                      last_rotation_time := current_time\<rparr>)" for sd
      using i bb ok cat b by (simp add: playable_def engine_ok_def from_catalog_def)
    with True c ne bb show ?thesis
      by (simp add: handle_rotation_def rotate_tetrimino_def Let_def)
  qed
qed

lemma update_playable:
  assumes "playable s"
  shows "\<exists>s'. update s commands current_time rnd = Inr s' \<and> playable s'"
proof (cases "game_over s \<or> is_paused s")
  case True
  with assms show ?thesis by (simp add: update_def)
next
  case False
  from handle_moves_playable [OF assms, of current_time commands] obtain s1 where
    m: "handle_moves s current_time commands = Inr s1" and p1: "playable s1" by blast
  from handle_rotation_playable [OF p1, of current_time commands] obtain s2 where
    r: "handle_rotation s1 current_time commands = Inr s2" and p2: "playable s2" by blast
  from handle_automatic_drop_playable [OF p2, of current_time commands rnd] obtain s3 where
    d: "handle_automatic_drop s2 current_time commands rnd = Inr s3" and p3: "playable s3"
    by blast
  from False m r d p3 show ?thesis
    by (simp add: update_def process_player_input_def)
qed

lemma new_tetrimino_ok:
  assumes "new_tetrimino s rnd = Inr (s', t)"
  shows "grid s' = grid s" and "spawn_ok t" and "current_tetrimino s' = current_tetrimino s"
proof -
  from spawn_piece [of rnd] obtain k t0 where
    c: "random_choice rnd (map fst TETRIMINOS) = Inr k" and i: "Tetrimino_init k = Inr t0"
    and t0: "spawn_ok t0"
    by blast
  from assms c i have "t = t0 \<and> grid s' = grid s \<and> current_tetrimino s' = current_tetrimino s"
    by (auto simp: new_tetrimino_def split: sum.splits if_splits)
  with t0 show "grid s' = grid s" and "spawn_ok t"
    and "current_tetrimino s' = current_tetrimino s"
    by simp_all
qed

lemma spawn_ok_catalog: "spawn_ok t \<Longrightarrow> from_catalog t"
  by (simp add: spawn_ok_def)

lemma reposition_catalog [simp]:
  "from_catalog (t\<lparr>position := p\<rparr>) = from_catalog t"
  "from_catalog (t\<lparr>rotation := k\<rparr>) = from_catalog t"
  "from_catalog (move_down t) = from_catalog t"
  by (simp_all add: from_catalog_def move_down_def)

lemma handle_moves_ok:
  assumes "handle_moves s current_time commands = Inr s'" and "engine_ok s"
  shows "engine_ok s'"
proof (cases "current_time - last_move_time s > move_speed s")
  case False
  with assms show ?thesis by (simp add: handle_moves_def)
next
  case True
  with assms(1) obtain t' where "s' = s\<lparr>current_tetrimino := t', last_move_time := current_time\<rparr>"
    and "from_catalog t' = from_catalog (current_tetrimino s)"
    by (auto simp: handle_moves_def Let_def split: sum.splits)
  with assms(2) show ?thesis by (simp add: engine_ok_def)
qed

lemma rotate_tetrimino_catalog:
  assumes "rotate_tetrimino g t current_time last_time delay sd = Inr (t', sd', time)"
  shows "from_catalog t' = from_catalog t"
  using assms
  by (auto simp: rotate_tetrimino_def Let_def split: if_splits sum.splits)

lemma handle_rotation_ok:
  assumes "handle_rotation s current_time commands = Inr s'" and "engine_ok s"
  shows "engine_ok s'"
proof (cases "''rotate'' \<in> commands")
  case False
  with assms show ?thesis by (simp add: handle_rotation_def)
next
  case True
  with assms(1) obtain t' sd' time where
    r: "rotate_tetrimino (grid s) (current_tetrimino s) current_time
          (last_rotation_time s) (rotation_delay s) (rotate_sound s) = Inr (t', sd', time)"
    and s': "s' = s\<lparr>current_tetrimino := t', rotate_sound := sd', last_rotation_time := time\<rparr>"
    by (auto simp: handle_rotation_def split: sum.splits)
  from rotate_tetrimino_catalog [OF r] assms(2) s' show ?thesis by (simp add: engine_ok_def)
qed

lemma engine_ok_update_level [simp]: "engine_ok (update_level s) = engine_ok s"
  by (simp add: engine_ok_def update_level_frame)

lemma respawn_ok:
  assumes "new_tetrimino s rnd = Inr (s', t)" and "engine_ok s"
  shows "engine_ok (s'\<lparr>current_tetrimino := t\<rparr>)"
  using new_tetrimino_ok [OF assms(1)] assms(2) by (simp add: engine_ok_def spawn_ok_def)

lemma lock_and_spawn_ok:
  assumes "lock_and_spawn s rnd = Inr s'" and "engine_ok s"
  shows "engine_ok s'"
proof -
  from assms(1) obtain s1 s2 s3 t where
    p: "place_tetrimino s = Inr s1" and c: "clear_lines s1 = Inr s2"
    and n: "new_tetrimino (update_level s2) rnd = Inr (s3, t)"
    and s': "s' = s3\<lparr>current_tetrimino := t\<rparr> \<or> s' = s3\<lparr>current_tetrimino := t, game_over := True\<rparr>"
    by (auto simp: lock_and_spawn_def Let_def split: sum.splits if_splits)
  have "engine_ok (update_level s2)"
    using clear_lines_ok [OF c place_tetrimino_ok [OF p assms(2)]] by simp
  from respawn_ok [OF n this] s' show ?thesis by (auto simp: engine_ok_def)
qed

lemma drop_tetrimino_ok:
  assumes "drop_tetrimino s rnd = Inr (s', d)" and "engine_ok s"
  shows "engine_ok s'" and "\<not> d \<longrightarrow> s' = s"
proof -
  let ?s1 = "s\<lparr>current_tetrimino := move_down (current_tetrimino s)\<rparr>"
  have ok1: "engine_ok ?s1" using assms(2) by (simp add: engine_ok_def)
  from assms(1) have "(s' = s \<and> \<not> d) \<or> (s' = ?s1 \<and> d) \<or> (lock_and_spawn ?s1 rnd = Inr s' \<and> d)"
    by (auto simp: drop_tetrimino_def Let_def split: sum.splits if_splits)
  with assms(2) ok1 lock_and_spawn_ok [of ?s1 rnd s']
  show "engine_ok s'" and "\<not> d \<longrightarrow> s' = s" by auto
qed

lemma attempt_to_drop_ok:
  assumes "attempt_to_drop s current_time rnd = Inr s'" and "engine_ok s"
  shows "engine_ok s'"
proof -
  from assms(1) obtain s1 d where d: "drop_tetrimino s rnd = Inr (s1, d)"
    by (auto simp: attempt_to_drop_def split: sum.splits)
  note ok1 = drop_tetrimino_ok [OF d assms(2)]
  show ?thesis
  proof (cases d)
    case True
    with assms(1) d ok1 show ?thesis by (auto simp: attempt_to_drop_def engine_ok_def)
  next
    case False
    with assms(1) d obtain s2 s3 s4 t where
      p: "place_tetrimino s1 = Inr s2" and c: "clear_lines s2 = Inr s3"
      and n: "new_tetrimino s3 rnd = Inr (s4, t)"
      and s': "s' = s4\<lparr>current_tetrimino := t, last_drop_time := current_time\<rparr>"
      by (auto simp: attempt_to_drop_def split: sum.splits)
    from respawn_ok [OF n clear_lines_ok [OF c place_tetrimino_ok [OF p ok1(1)]]] s'
    show ?thesis by (simp add: engine_ok_def)
  qed
qed

lemma update_ok:
  assumes "update s commands current_time rnd = Inr s'" and "engine_ok s"
  shows "engine_ok s'"
proof (cases "game_over s \<or> is_paused s")
  case True
  with assms show ?thesis by (simp add: update_def)
next
  case False
  with assms(1) obtain s1 s2 where
    m: "handle_moves s current_time commands = Inr s1"
    and r: "handle_rotation s1 current_time commands = Inr s2"
    and d: "handle_automatic_drop s2 current_time commands rnd = Inr s'"
    by (auto simp: update_def process_player_input_def split: sum.splits)
  have ok2: "engine_ok s2" using handle_rotation_ok [OF r handle_moves_ok [OF m assms(2)]] .
  from d have "s' = s2 \<or> attempt_to_drop s2 current_time rnd = Inr s'"
    by (auto simp: handle_automatic_drop_def split: if_splits)
  with ok2 attempt_to_drop_ok [of s2 current_time rnd s'] show ?thesis by auto
qed

lemma reset_game_ok:
  assumes "reset_game s rnd = Inr s'" and "grid_ok (grid s)"
  shows "engine_ok s'" and "grid s' = grid s"
proof -
  from assms(1) obtain s2 t where
    n: "new_tetrimino (s\<lparr>score := 0, lines_cleared := 0, level := 1\<rparr>) rnd = Inr (s2, t)"
    and s': "s' = s2\<lparr>current_tetrimino := t, game_over := False, is_paused := False\<rparr>"
    by (auto simp: reset_game_def Let_def split: sum.splits)
  from new_tetrimino_ok [OF n] s' assms(2)
  show "engine_ok s'" and "grid s' = grid s" by (simp_all add: engine_ok_def spawn_ok_def)
qed

lemma chosen_piece_spawn_ok:
  assumes "random_choice rnd (map fst TETRIMINOS) = Inr k" and "Tetrimino_init k = Inr t"
  shows "spawn_ok t"
  using spawn_piece [of rnd] assms by auto

lemma init_playable:
  assumes "init (Some n) rotate_snd rnd t1 t2 t3 = Inr s"
  shows "playable s"
proof -
  from assms obtain k t where
    c: "random_choice rnd (map fst TETRIMINOS) = Inr k" and i: "Tetrimino_init k = Inr t"
    and s: "current_tetrimino s = t" "break_line_sound s = Some n"
      "grid s = replicate (nat GRID_HEIGHT) (replicate (nat GRID_WIDTH) 0)"
    by (auto simp: init_def new_tetrimino_def Let_def split: sum.splits if_splits)
  have ok: "grid_ok (replicate (nat GRID_HEIGHT) (replicate (nat GRID_WIDTH) 0))" by code_simp
  from chosen_piece_spawn_ok [OF c i] ok s show ?thesis by (intro playableI) simp_all
qed

lemma reset_game_playable:
  assumes "playable s"
  shows "\<exists>s'. reset_game s rnd = Inr s' \<and> playable s'"
proof -
  from assms have ok: "grid_ok (grid s)" and b: "break_line_sound s \<noteq> None"
    by (simp_all add: playable_def engine_ok_def)
  let ?s1 = "s\<lparr>score := 0, lines_cleared := 0, level := 1\<rparr>"
  have "rectangular (grid ?s1)" using ok by (simp add: grid_ok_rectangular)
  from new_tetrimino_result [OF this, of rnd] obtain t bb where
    t: "spawn_ok t"
    and n: "new_tetrimino ?s1 rnd = Inr (if bb then ?s1 else ?s1\<lparr>game_over := True\<rparr>, t)"
    by blast
  let ?s' = "(if bb then ?s1 else ?s1\<lparr>game_over := True\<rparr>)
               \<lparr>current_tetrimino := t, game_over := False, is_paused := False\<rparr>"
  have "reset_game s rnd = Inr ?s'" using n by (simp add: reset_game_def Let_def)
  moreover have "playable ?s'" using t ok b by (intro playableI) simp_all
  ultimately show ?thesis by blast
qed

text \<open>
  Claim C10: every engine operation keeps the grid at \<^verbatim>\<open>GRID_HEIGHT\<close> rows of
  \<^verbatim>\<open>GRID_WIDTH\<close> cells with every cell in \<open>{0..7}\<close>: locking a piece
  (\<^verbatim>\<open>place_tetrimino\<close>), clearing lines, the frame update and the reset, for an engine
  whose piece comes from the catalog. Moreover, in an engine whose piece lies inside the
  field and which holds a line-clear sound (as every engine does from the constructor
  on), each of these operations returns, and the update and the reset leave such an
  engine again.
\<close>

theorem engine_operations_keep_grid:
  assumes "grid_ok (grid s)" and "from_catalog (current_tetrimino s)"
  shows "(\<forall>s'. place_tetrimino s = Inr s' \<longrightarrow> grid_ok (grid s'))
       \<and> (\<forall>s'. clear_lines s = Inr s' \<longrightarrow> grid_ok (grid s'))
       \<and> (\<forall>s'. update s commands current_time rnd = Inr s' \<longrightarrow>
             grid_ok (grid s') \<and> from_catalog (current_tetrimino s'))
       \<and> (\<forall>s'. reset_game s rnd = Inr s' \<longrightarrow>
             grid_ok (grid s') \<and> from_catalog (current_tetrimino s'))
       \<and> (playable s \<longrightarrow>
             (\<exists>s'. place_tetrimino s = Inr s') \<and> (\<exists>s'. clear_lines s = Inr s')
             \<and> (\<exists>s'. update s commands current_time rnd = Inr s' \<and> playable s')
             \<and> (\<exists>s'. reset_game s rnd = Inr s' \<and> playable s'))"
proof -
  have e: "engine_ok s" using assms by (simp add: engine_ok_def)
  have 1: "\<forall>s'. place_tetrimino s = Inr s' \<longrightarrow> grid_ok (grid s')"
    using place_tetrimino_ok [OF _ e] by (simp add: engine_ok_def)
  have 2: "\<forall>s'. clear_lines s = Inr s' \<longrightarrow> grid_ok (grid s')"
    using clear_lines_ok [OF _ e] by (simp add: engine_ok_def)
  have 3: "\<forall>s'. update s commands current_time rnd = Inr s' \<longrightarrow>
             grid_ok (grid s') \<and> from_catalog (current_tetrimino s')"
    using update_ok [OF _ e] by (simp add: engine_ok_def)
  have 4: "\<forall>s'. reset_game s rnd = Inr s' \<longrightarrow>
             grid_ok (grid s') \<and> from_catalog (current_tetrimino s')"
    using reset_game_ok(1) [OF _ assms(1)] by (simp add: engine_ok_def)
  have 5: "(\<exists>s'. place_tetrimino s = Inr s') \<and> (\<exists>s'. clear_lines s = Inr s')
             \<and> (\<exists>s'. update s commands current_time rnd = Inr s' \<and> playable s')
             \<and> (\<exists>s'. reset_game s rnd = Inr s' \<and> playable s')" if p: "playable s"
  proof -
    from p have f: "in_field (grid s) (current_tetrimino s)" and b: "break_line_sound s \<noteq> None"
      by (simp_all add: playable_def)
    from place_tetrimino_returns [OF e f] have "\<exists>s'. place_tetrimino s = Inr s'" by blast
    moreover from clear_lines_returns [OF assms(1) b] have "\<exists>s'. clear_lines s = Inr s'" by blast
    ultimately show ?thesis
      using update_playable [OF p, of commands current_time rnd] reset_game_playable [OF p, of rnd]
      by blast
  qed
  from 1 2 3 4 5 show ?thesis by blast
qed

theorem engine_operations_keep_grid_witness:
  "grid_ok (grid engine_tuck) \<and> from_catalog (current_tetrimino engine_tuck)
   \<and> playable engine_tuck
   \<and> (\<exists>s'. update engine_tuck {''rotate''} 2000 3 = Inr s' \<and> grid_ok (grid s') \<and> playable s')
   \<and> (\<exists>s'. reset_game engine_tuck 3 = Inr s' \<and> grid_ok (grid s'))"
proof -
  have g: "grid_ok (grid engine_tuck)" by code_simp
  have c: "from_catalog (current_tetrimino engine_tuck)" by code_simp
  have p: "playable engine_tuck" by code_simp
  from engine_operations_keep_grid [OF g c, of "{''rotate''}" 2000 3] g c p
  show ?thesis by blast
qed

section \<open>Locking\<close>

lemma place_line_nth:
  assumes "place_line g r col j cells = Inr g'" and "0 \<le> r" and "r < int (length g)"
    and "\<forall>k < length cells. cells ! k > 0 \<longrightarrow>
           0 \<le> col + int (j + k) \<and> col + int (j + k) < int (length (g ! nat r))"
  shows "length g' = length g \<and> (\<forall>r' < length g. length (g' ! r') = length (g ! r')
           \<and> (\<forall>c < length (g ! r'). g' ! r' ! c =
                 (if r' = nat r \<and> (\<exists>k < length cells. cells ! k > 0 \<and> int c = col + int (j + k))
                  then cells ! nat (int c - col - int j) else g ! r' ! c)))"
  using assms
proof (induction cells arbitrary: g j)
  case Nil
  then show ?case by simp
next
  case (Cons cell cells)
  have ex: "(\<exists>k < length (cell # cells). (cell # cells) ! k > 0 \<and> int c = col + int (j + k))
              \<longleftrightarrow> (cell > 0 \<and> int c = col + int j)
                  \<or> (\<exists>k < length cells. cells ! k > 0 \<and> int c = col + int (Suc j + k))" for c
    by (auto simp: less_Suc_eq_0_disj)
  have nth: "(cell # cells) ! nat (int c - col - int j) = cells ! nat (int c - col - int (Suc j))"
    if "\<exists>k < length cells. cells ! k > 0 \<and> int c = col + int (Suc j + k)" for c
    using that by (auto simp: nat_add_distrib)
  have hd: "(cell # cells) ! nat (int c - col - int j) = cell" if "int c = col + int j" for c
    using that by simp
  have excl: "\<not> (int c = col + int j \<and> (\<exists>k < length cells. int c = col + int (Suc j + k)))" for c
    by auto
  show ?case
  proof (cases "cell > 0")
    case False
    with Cons.prems have rest: "place_line g r col (Suc j) cells = Inr g'"
      and b: "\<forall>k < length cells. cells ! k > 0 \<longrightarrow>
           0 \<le> col + int (Suc j + k) \<and> col + int (Suc j + k) < int (length (g ! nat r))"
      by fastforce+
    from Cons.IH [OF rest Cons.prems(2,3) b] False show ?thesis
      unfolding ex by (auto simp: nth)
  next
    case True
    let ?c = "col + int j"
    from Cons.prems(4) True have c: "0 \<le> ?c" "?c < int (length (g ! nat r))" by fastforce+
    let ?g1 = "g[nat r := (g ! nat r)[nat ?c := cell]]"
    have rest: "place_line ?g1 r col (Suc j) cells = Inr g'"
      using Cons.prems(1,2,3) True c by (simp add: py_index_nonneg py_setitem_nonneg)
    have r1: "r < int (length ?g1)" using Cons.prems(3) by simp
    have b: "\<forall>k < length cells. cells ! k > 0 \<longrightarrow>
           0 \<le> col + int (Suc j + k) \<and> col + int (Suc j + k) < int (length (?g1 ! nat r))"
      using Cons.prems(2,3,4) by fastforce
    note IH = Cons.IH [OF rest Cons.prems(2) r1 b]
    have n: "nat r < length g" using Cons.prems(2,3) by simp
    have nc: "nat ?c < length (g ! nat r)" using c by simp
    have l1: "length (?g1 ! r') = length (g ! r')" if "r' < length g" for r'
      using that n by (cases "r' = nat r") (auto simp: nth_list_update)
    have g1: "?g1 ! r' ! c' = (if r' = nat r \<and> int c' = ?c then cell else g ! r' ! c')"
      if "r' < length g" "c' < length (g ! r')" for r' c'
      using that n nc c(1) by (cases "r' = nat r") (auto simp: nth_list_update)
    show ?thesis
    proof (intro conjI allI impI)
      show "length g' = length g" using IH by simp
    next
      fix r' assume r': "r' < length g"
      then show "length (g' ! r') = length (g ! r')" using IH l1 by simp
    next
      fix r' c' assume r': "r' < length g" and c': "c' < length (g ! r')"
      have len: "c' < length (?g1 ! r')" using r' c' l1 by simp
      from IH r' len have "g' ! r' ! c' =
                 (if r' = nat r \<and> (\<exists>k < length cells. cells ! k > 0 \<and> int c' = col + int (Suc j + k))
                  then cells ! nat (int c' - col - int (Suc j)) else ?g1 ! r' ! c')"
        by simp
      then show "g' ! r' ! c' =
          (if r' = nat r \<and> (\<exists>k < length (cell # cells). (cell # cells) ! k > 0 \<and> int c' = col + int (j + k))
           then (cell # cells) ! nat (int c' - col - int j) else g ! r' ! c')"
        unfolding ex using g1 [OF r' c'] True excl [of c'] nth [of c'] hd [of c']
        by (auto simp del: nth_Cons_Suc nth_Cons_0)
    qed
  qed
qed

lemma place_line_blank:
  "\<forall>cell \<in> set cells. \<not> cell > 0 \<Longrightarrow> place_line g r col j cells = Inr g"
  by (induction cells arbitrary: j) simp_all

lemma place_lines_nth:
  assumes "place_lines g row col i m = Inr g'" and "0 \<le> row"
    and "\<forall>a < length m. \<forall>k < length (m ! a). m ! a ! k > 0 \<longrightarrow>
           row + int (i + a) < int (length g)
           \<and> 0 \<le> col + int k \<and> col + int k < int (length (g ! nat (row + int (i + a))))"
  shows "length g' = length g \<and> (\<forall>r' < length g. length (g' ! r') = length (g ! r')
           \<and> (\<forall>c < length (g ! r'). g' ! r' ! c =
                 (if \<exists>a < length m. r' = nat (row + int (i + a))
                        \<and> (\<exists>k < length (m ! a). m ! a ! k > 0 \<and> int c = col + int k)
                  then m ! nat (int r' - row - int i) ! nat (int c - col) else g ! r' ! c)))"
  using assms
proof (induction m arbitrary: g i)
  case Nil
  then show ?case by simp
next
  case (Cons line lines)
  let ?r = "row + int i"
  have r0: "0 \<le> ?r" using Cons.prems(2) by simp
  from Cons.prems(1) obtain g1 where
    l: "place_line g ?r col 0 line = Inr g1"
    and rest: "place_lines g1 row col (Suc i) lines = Inr g'"
    by (auto split: sum.splits)
  have first: "length g1 = length g \<and> (\<forall>r' < length g. length (g1 ! r') = length (g ! r')
           \<and> (\<forall>c < length (g ! r'). g1 ! r' ! c =
                 (if r' = nat ?r \<and> (\<exists>k < length line. line ! k > 0 \<and> int c = col + int k)
                  then line ! nat (int c - col) else g ! r' ! c)))"
  proof (cases "\<exists>k < length line. line ! k > 0")
    case False
    then have "\<forall>cell \<in> set line. \<not> cell > 0" by (auto simp: in_set_conv_nth)
    from place_line_blank [OF this, of g ?r col 0] l have "g1 = g" by simp
    with False show ?thesis by auto
  next
    case True
    with Cons.prems(3) have r: "?r < int (length g)"
      and b: "\<forall>k < length line. line ! k > 0 \<longrightarrow>
           0 \<le> col + int (0 + k) \<and> col + int (0 + k) < int (length (g ! nat ?r))"
      by fastforce+
    from place_line_nth [OF l r0 r b, unfolded add_0 of_nat_0 diff_zero] show ?thesis .
  qed
  have b1: "\<forall>a < length lines. \<forall>k < length (lines ! a). lines ! a ! k > 0 \<longrightarrow>
           row + int (Suc i + a) < int (length g1)
           \<and> 0 \<le> col + int k \<and> col + int k < int (length (g1 ! nat (row + int (Suc i + a))))"
  proof (intro allI impI)
    fix a k assume a: "a < length lines" and k: "k < length (lines ! a)" and p: "lines ! a ! k > 0"
    from Cons.prems(3) [rule_format, of "Suc a" k] a k p
    have "row + int (i + Suc a) < int (length g)
           \<and> 0 \<le> col + int k \<and> col + int k < int (length (g ! nat (row + int (i + Suc a))))"
      by simp
    moreover from this Cons.prems(2) have "nat (row + int (i + Suc a)) < length g" by linarith
    ultimately show "row + int (Suc i + a) < int (length g1)
           \<and> 0 \<le> col + int k \<and> col + int k < int (length (g1 ! nat (row + int (Suc i + a))))"
      using first by simp
  qed
  note IH = Cons.IH [OF rest Cons.prems(2) b1]
  have ex: "(\<exists>a < length (line # lines). r' = nat (row + int (i + a))
                \<and> (\<exists>k < length ((line # lines) ! a). (line # lines) ! a ! k > 0 \<and> int c = col + int k))
            \<longleftrightarrow> (r' = nat ?r \<and> (\<exists>k < length line. line ! k > 0 \<and> int c = col + int k))
                \<or> (\<exists>a < length lines. r' = nat (row + int (Suc i + a))
                      \<and> (\<exists>k < length (lines ! a). lines ! a ! k > 0 \<and> int c = col + int k))"
    for r' c
    by (auto simp: less_Suc_eq_0_disj)
  have nth: "(line # lines) ! nat (int r' - row - int i) = lines ! nat (int r' - row - int (Suc i))"
    if "\<exists>a < length lines. r' = nat (row + int (Suc i + a))" for r'
    using that Cons.prems(2) by (auto simp: nat_add_distrib)
  have hd: "(line # lines) ! nat (int r' - row - int i) = line" if "r' = nat ?r" for r'
    using that r0 by simp
  have excl: "\<not> (r' = nat ?r \<and> (\<exists>a < length lines. r' = nat (row + int (Suc i + a))))" for r'
    using Cons.prems(2) by auto
  show ?case
  proof (intro conjI allI impI)
    show "length g' = length g" using IH first by simp
  next
    fix r' assume "r' < length g"
    then show "length (g' ! r') = length (g ! r')" using IH first by simp
  next
    fix r' c assume r': "r' < length g" and c: "c < length (g ! r')"
    let ?A = "r' = nat ?r \<and> (\<exists>k < length line. line ! k > 0 \<and> int c = col + int k)"
    let ?B = "\<exists>a < length lines. r' = nat (row + int (Suc i + a))
                      \<and> (\<exists>k < length (lines ! a). lines ! a ! k > 0 \<and> int c = col + int k)"
    let ?C = "\<exists>a < length (line # lines). r' = nat (row + int (i + a))
                \<and> (\<exists>k < length ((line # lines) ! a). (line # lines) ! a ! k > 0 \<and> int c = col + int k)"
    from IH first r' c
    have P: "g' ! r' ! c = (if ?B then lines ! nat (int r' - row - int (Suc i)) ! nat (int c - col)
                            else g1 ! r' ! c)"
      by simp
    from first r' c
    have Q: "g1 ! r' ! c = (if ?A then line ! nat (int c - col) else g ! r' ! c)"
      by simp
    have C: "?C \<longleftrightarrow> ?A \<or> ?B" by (rule ex)
    show "g' ! r' ! c =
            (if ?C then (line # lines) ! nat (int r' - row - int i) ! nat (int c - col)
             else g ! r' ! c)"
    proof (cases ?B)
      case True
      then have "\<exists>a < length lines. r' = nat (row + int (Suc i + a))" by blast
      from nth [OF this] True P C show ?thesis by (simp only: if_True simp_thms)
    next
      case False
      show ?thesis
      proof (cases ?A)
        case True
        then have "r' = nat ?r" by blast
        from hd [OF this] True False P Q C show ?thesis
          by (simp only: if_True if_False simp_thms)
      next
        case A: False
        with False P Q C show ?thesis by (simp only: if_False simp_thms)
      qed
    qed
  qed
qed

lemma piece_cell_hit:
  assumes "0 \<le> row"
  shows "(\<exists>a < length m. r = nat (row + int a)
            \<and> (\<exists>k < length (m ! a). m ! a ! k > 0 \<and> int c = col + int k))
         \<longleftrightarrow> piece_cell m row col (int r) (int c) > 0" (is "?L \<longleftrightarrow> ?R")
proof
  assume ?L
  then obtain a k where a: "a < length m" "r = nat (row + int a)"
    and k: "k < length (m ! a)" "m ! a ! k > 0" "int c = col + int k"
    by auto
  from a assms have "int r = row + int a" by simp
  with a k show ?R by (simp add: piece_cell_def)
next
  assume R: ?R
  then have b: "row \<le> int r" "int r < row + int (length m)" "col \<le> int c"
    "int c < col + int (length (m ! nat (int r - row)))"
    and v: "m ! nat (int r - row) ! nat (int c - col) > 0"
    by (auto simp: piece_cell_def split: if_splits)
  let ?a = "nat (int r - row)" and ?k = "nat (int c - col)"
  have "?a < length m" "r = nat (row + int ?a)" "?k < length (m ! ?a)" "int c = col + int ?k"
    using b by auto
  with v show ?L by blast
qed

lemma piece_cell_value:
  assumes "piece_cell m row col (int r) (int c) > 0"
  shows "m ! nat (int r - row) ! nat (int c - col) = piece_cell m row col (int r) (int c)"
  using assms by (auto simp: piece_cell_def split: if_splits)

lemma place_tetrimino_locked:
  assumes "place_tetrimino s = Inr s'" and "in_field (grid s) (current_tetrimino s)"
    and "rectangular (grid s)"
  shows "locked_grid (grid s) (current_tetrimino s) (grid s')"
proof -
  let ?t = "current_tetrimino s"
  let ?m = "fst (rotations ?t ! nat (rotation ?t))"
  let ?row = "fst (position ?t)" and ?col = "snd (position ?t)"
  note f = in_field_cells [OF assms(2)]
  have row: "0 \<le> ?row" using assms(2) by (simp add: in_field_def)
  from assms(1) f(1) have p: "place_lines (grid s) ?row ?col 0 ?m = Inr (grid s')"
    by (auto simp: place_tetrimino_def get_current_shape_def split: sum.splits)
  have w: "int (length (grid s ! nat r)) = width (grid s)" if "0 \<le> r" "r < height (grid s)" for r
  proof -
    from that have n: "nat r < length (grid s)" by (simp add: height_def)
    then have "grid s ! nat r \<in> set (grid s)" by simp
    with assms(3) n show ?thesis
      by (cases "grid s") (auto simp: rectangular_def width_def)
  qed
  have b: "\<forall>a < length ?m. \<forall>k < length (?m ! a). ?m ! a ! k > 0 \<longrightarrow>
           ?row + int (0 + a) < int (length (grid s))
           \<and> 0 \<le> ?col + int k
           \<and> ?col + int k < int (length (grid s ! nat (?row + int (0 + a))))"
  proof (intro allI impI)
    fix a k assume "a < length ?m" "k < length (?m ! a)" "?m ! a ! k > 0"
    with f(2) have h: "?row + int (0 + a) < height (grid s)"
      "0 \<le> ?col + int k" "?col + int k < width (grid s)"
      by blast+
    from w [of "?row + int (0 + a)"] h row
    show "?row + int (0 + a) < int (length (grid s))
           \<and> 0 \<le> ?col + int k
           \<and> ?col + int k < int (length (grid s ! nat (?row + int (0 + a))))"
      by (simp add: height_def)
  qed
  from place_lines_nth [OF p row b, unfolded add_0 of_nat_0 diff_zero piece_cell_hit [OF row]]
  show ?thesis
    unfolding locked_grid_def Let_def by (auto simp: piece_cell_value)
qed

text \<open>
  Claim C3 says that a drop step in which the piece can move one row down only moves it,
  also when it cannot move any further afterwards, and that the lock waits for the next
  drop attempt. The code looks one row ahead: \<^verbatim>\<open>drop_tetrimino\<close> moves the piece and,
  if it then cannot fit one further row down, places it, clears the lines, updates the
  level and spawns, all in the same call. The O piece at row 17 of the empty grid is moved
  to row 18 and locked there at once.
\<close>

theorem drop_defers_lock_counterexample:
  "can_fit (grid engine_rest) (current_tetrimino engine_rest) 18 4 None = Inr True
   \<and> can_fit (grid engine_rest) (move_down (current_tetrimino engine_rest)) 19 4 None = Inr False
   \<and> attempt_to_drop engine_rest 1000 0
        \<noteq> Inr (engine_rest\<lparr>current_tetrimino := move_down (current_tetrimino engine_rest),
                            last_drop_time := 1000\<rparr>)
   \<and> (case attempt_to_drop engine_rest 1000 0 of
         Inl e \<Rightarrow> False
       | Inr s' \<Rightarrow> grid s' = replicate 18 (replicate 10 0) @ replicate 2 [0, 0, 0, 0, 2, 2, 0, 0, 0, 0]
                   \<and> current_tetrimino s' = piece_I)"
  by code_simp

text \<open>
  Claim C3, amended: in an engine whose piece lies inside the field and which holds a
  line-clear sound, in a drop step in which the piece can fit one row down, the engine
  moves it down one row; if the piece can fit one further row down, that is all the step
  does (apart from recording the drop time); if it cannot, the piece is locked in this
  same step: its filled cells are written into the grid at the new position, the full
  lines are cleared and scored, the level is updated and a new piece is spawned.
\<close>

theorem drop_locks_in_same_step:
  assumes "playable s"
    and "can_fit (grid s) (current_tetrimino s) (fst (position (current_tetrimino s)) + 1)
           (snd (position (current_tetrimino s))) None = Inr True"
  shows "(can_fit (grid s) (move_down (current_tetrimino s))
            (fst (position (current_tetrimino s)) + 2) (snd (position (current_tetrimino s))) None
            = Inr True \<longrightarrow>
          attempt_to_drop s current_time rnd
            = Inr (s\<lparr>current_tetrimino := move_down (current_tetrimino s),
                      last_drop_time := current_time\<rparr>))
       \<and> (can_fit (grid s) (move_down (current_tetrimino s))
            (fst (position (current_tetrimino s)) + 2) (snd (position (current_tetrimino s))) None
            = Inr False \<longrightarrow>
          (\<exists>g1 s2 s'. locked_grid (grid s) (move_down (current_tetrimino s)) g1
             \<and> clear_lines (s\<lparr>current_tetrimino := move_down (current_tetrimino s), grid := g1\<rparr>)
                 = Inr s2
             \<and> attempt_to_drop s current_time rnd = Inr s'
             \<and> grid s' = grid s2 \<and> score s' = score s2 \<and> lines_cleared s' = lines_cleared s2
             \<and> level s' = level (update_level s2) \<and> drop_speed s' = drop_speed (update_level s2)
             \<and> spawn_ok (current_tetrimino s') \<and> last_drop_time s' = current_time))"
proof (intro conjI impI)
  let ?t = "current_tetrimino s"
  let ?s1 = "s\<lparr>current_tetrimino := move_down ?t\<rparr>"
  have pos: "fst (position (move_down ?t)) + 1 = fst (position ?t) + 2"
    "snd (position (move_down ?t)) = snd (position ?t)"
    by (simp_all add: move_down_def)
  {
    assume "can_fit (grid s) (move_down ?t) (fst (position ?t) + 2) (snd (position ?t)) None
              = Inr True"
    then have "can_fit (grid s) (move_down ?t) (fst (position (move_down ?t)) + 1)
                 (snd (position (move_down ?t))) None = Inr True"
      unfolding pos .
    with assms(2) have "drop_tetrimino s rnd = Inr (?s1, True)"
      by (simp add: drop_tetrimino_def Let_def)
    then show "attempt_to_drop s current_time rnd
                 = Inr (s\<lparr>current_tetrimino := move_down ?t, last_drop_time := current_time\<rparr>)"
      by (simp add: attempt_to_drop_def)
  }
  {
    assume c2: "can_fit (grid s) (move_down ?t) (fst (position ?t) + 2) (snd (position ?t)) None
              = Inr False"
    have row: "0 \<le> fst (position ?t) + 1" using playable_row [OF assms(1)] by simp
    from try_move [OF assms(1) row, of "snd (position ?t)"] assms(2)
    have p1: "playable ?s1" by (auto simp: move_down_def)
    from lock_and_spawn_returns [OF p1, of rnd] obtain s1' s2 t b where
      p: "place_tetrimino ?s1 = Inr s1'" and c: "clear_lines s1' = Inr s2"
      and t: "spawn_ok t"
      and l: "lock_and_spawn ?s1 rnd
               = Inr ((if b then update_level s2 else (update_level s2)\<lparr>game_over := True\<rparr>)
                        \<lparr>current_tetrimino := t\<rparr>)"
      by blast
    let ?s' = "(if b then update_level s2 else (update_level s2)\<lparr>game_over := True\<rparr>)
                        \<lparr>current_tetrimino := t, last_drop_time := current_time\<rparr>"
    from p1 have f: "in_field (grid ?s1) (current_tetrimino ?s1)" and e: "engine_ok ?s1"
      by (simp_all add: playable_def)
    from e have r: "rectangular (grid ?s1)" by (simp add: engine_ok_def grid_ok_rectangular)
    from place_tetrimino_locked [OF p f r]
    have lg: "locked_grid (grid s) (move_down ?t) (grid s1')" by simp
    from place_tetrimino_returns [OF e f] p have s1': "s1' = ?s1\<lparr>grid := grid s1'\<rparr>" by auto
    from c2 have c2': "can_fit (grid s) (move_down ?t) (fst (position (move_down ?t)) + 1)
                 (snd (position (move_down ?t))) None = Inr False"
      unfolding pos .
    from assms(2) c2' l have "drop_tetrimino s rnd
        = Inr ((if b then update_level s2 else (update_level s2)\<lparr>game_over := True\<rparr>)
                        \<lparr>current_tetrimino := t\<rparr>, True)"
      by (simp add: drop_tetrimino_def Let_def)
    then have a: "attempt_to_drop s current_time rnd = Inr ?s'"
      by (simp add: attempt_to_drop_def)
    have cl: "clear_lines (s\<lparr>current_tetrimino := move_down ?t, grid := grid s1'\<rparr>) = Inr s2"
      using c s1' by simp
    have props: "grid ?s' = grid s2 \<and> score ?s' = score s2 \<and> lines_cleared ?s' = lines_cleared s2
             \<and> level ?s' = level (update_level s2) \<and> drop_speed ?s' = drop_speed (update_level s2)
             \<and> spawn_ok (current_tetrimino ?s') \<and> last_drop_time ?s' = current_time"
      using t by (simp add: update_level_frame)
    from lg cl a props
    show "\<exists>g1 s2 s'. locked_grid (grid s) (move_down ?t) g1
             \<and> clear_lines (s\<lparr>current_tetrimino := move_down ?t, grid := g1\<rparr>) = Inr s2
             \<and> attempt_to_drop s current_time rnd = Inr s'
             \<and> grid s' = grid s2 \<and> score s' = score s2 \<and> lines_cleared s' = lines_cleared s2
             \<and> level s' = level (update_level s2) \<and> drop_speed s' = drop_speed (update_level s2)
             \<and> spawn_ok (current_tetrimino s') \<and> last_drop_time s' = current_time"
      by blast
  }
qed

theorem drop_locks_in_same_step_witness:
  "playable engine_rest
   \<and> (\<exists>g1 s2 s'. locked_grid (grid engine_rest) (move_down (current_tetrimino engine_rest)) g1
          \<and> clear_lines (engine_rest\<lparr>current_tetrimino := move_down (current_tetrimino engine_rest),
                                       grid := g1\<rparr>) = Inr s2
          \<and> attempt_to_drop engine_rest 1000 0 = Inr s'
          \<and> grid s' = grid s2 \<and> spawn_ok (current_tetrimino s') \<and> last_drop_time s' = 1000)
   \<and> attempt_to_drop (engine empty_grid piece_O) 1000 0
        = Inr ((engine empty_grid piece_O)\<lparr>current_tetrimino := move_down piece_O,
                                             last_drop_time := 1000\<rparr>)"
proof -
  let ?t = "current_tetrimino engine_rest"
  have p: "playable engine_rest" by code_simp
  have h: "can_fit (grid engine_rest) ?t (fst (position ?t) + 1) (snd (position ?t)) None
             = Inr True"
    by code_simp
  have c: "can_fit (grid engine_rest) (move_down ?t) (fst (position ?t) + 2)
             (snd (position ?t)) None = Inr False"
    by code_simp
  let ?e = "engine empty_grid piece_O"
  have p0: "playable ?e" by code_simp
  have h0: "can_fit (grid ?e) (current_tetrimino ?e) (fst (position (current_tetrimino ?e)) + 1)
              (snd (position (current_tetrimino ?e))) None = Inr True"
    by code_simp
  have c0: "can_fit (grid ?e) (move_down (current_tetrimino ?e))
              (fst (position (current_tetrimino ?e)) + 2)
              (snd (position (current_tetrimino ?e))) None = Inr True"
    by code_simp
  have t0: "current_tetrimino ?e = piece_O" by (simp add: engine_def)
  from drop_locks_in_same_step [OF p h, of 1000 0] c
  have a: "\<exists>g1 s2 s'. locked_grid (grid engine_rest) (move_down ?t) g1
          \<and> clear_lines (engine_rest\<lparr>current_tetrimino := move_down ?t, grid := g1\<rparr>) = Inr s2
          \<and> attempt_to_drop engine_rest 1000 0 = Inr s'
          \<and> grid s' = grid s2 \<and> spawn_ok (current_tetrimino s') \<and> last_drop_time s' = 1000"
    by blast
  from drop_locks_in_same_step [OF p0 h0, of 1000 0] c0 t0
  have b: "attempt_to_drop ?e 1000 0
             = Inr (?e\<lparr>current_tetrimino := move_down piece_O, last_drop_time := 1000\<rparr>)"
    by simp
  from p a b show ?thesis by blast
qed

section \<open>Level and drop interval across a frame\<close>

text \<open>
  Apart from the lock in \<^verbatim>\<open>attempt_to_drop\<close>, which leaves the level behind, the
  progression is as described: no frame raises the drop interval or takes it below 100,
  and neither the level nor the number of lines cleared ever decreases.
\<close>

lemma place_tetrimino_frame:
  assumes "place_tetrimino s = Inr s'"
  shows "drop_speed s' = drop_speed s" and "level s' = level s"
    and "lines_cleared s' = lines_cleared s"
  using assms by (auto simp: place_tetrimino_def split: sum.splits)

lemma clear_lines_frame:
  assumes "clear_lines s = Inr s'"
  shows "drop_speed s' = drop_speed s" and "level s' = level s"
    and "lines_cleared s' = lines_cleared s + int (full_rows (grid s))"
  using assms
  by (auto simp: clear_lines_def clear_loop_filter full_rows_def split: sum.splits if_splits)

lemma new_tetrimino_frame:
  assumes "new_tetrimino s rnd = Inr (s', t)"
  shows "s' = s \<or> s' = s\<lparr>game_over := True\<rparr>"
  using assms by (auto simp: new_tetrimino_def split: sum.splits if_splits)

lemma handle_moves_frame:
  assumes "handle_moves s current_time commands = Inr s'"
  shows "drop_speed s' = drop_speed s \<and> level s' = level s \<and> lines_cleared s' = lines_cleared s"
  using assms by (auto simp: handle_moves_def Let_def split: sum.splits if_splits)

lemma handle_rotation_frame:
  assumes "handle_rotation s current_time commands = Inr s'"
  shows "drop_speed s' = drop_speed s \<and> level s' = level s \<and> lines_cleared s' = lines_cleared s"
  using assms by (auto simp: handle_rotation_def split: sum.splits if_splits)

lemma lock_and_spawn_speed:
  assumes "lock_and_spawn s rnd = Inr s'" and "100 \<le> drop_speed s" and "1 \<le> level s"
  shows "100 \<le> drop_speed s' \<and> drop_speed s' \<le> drop_speed s \<and> level s \<le> level s'
         \<and> lines_cleared s \<le> lines_cleared s'"
proof -
  from assms(1) obtain s1 s2 s3 t where
    p: "place_tetrimino s = Inr s1" and c: "clear_lines s1 = Inr s2"
    and n: "new_tetrimino (update_level s2) rnd = Inr (s3, t)"
    and s': "s' = s3\<lparr>current_tetrimino := t\<rparr> \<or> s' = s3\<lparr>current_tetrimino := t, game_over := True\<rparr>"
    by (auto simp: lock_and_spawn_def Let_def split: sum.splits if_splits)
  note 1 = place_tetrimino_frame [OF p]
  note 2 = clear_lines_frame [OF c]
  from update_level_speed [of s2] 1 2 assms(2,3)
  have 3: "100 \<le> drop_speed (update_level s2)" "drop_speed (update_level s2) \<le> drop_speed s"
    "level s \<le> level (update_level s2)"
    by simp_all
  from new_tetrimino_frame [OF n] s'
  have "drop_speed s' = drop_speed (update_level s2) \<and> level s' = level (update_level s2)
        \<and> lines_cleared s' = lines_cleared (update_level s2)"
    by auto
  with 1 2 3 show ?thesis by (simp add: update_level_frame)
qed

lemma drop_tetrimino_speed:
  assumes "drop_tetrimino s rnd = Inr (s', d)" and "100 \<le> drop_speed s" and "1 \<le> level s"
  shows "100 \<le> drop_speed s' \<and> drop_speed s' \<le> drop_speed s \<and> level s \<le> level s'
         \<and> lines_cleared s \<le> lines_cleared s'"
proof -
  let ?s1 = "s\<lparr>current_tetrimino := move_down (current_tetrimino s)\<rparr>"
  from assms(1) have "s' = s \<or> s' = ?s1 \<or> lock_and_spawn ?s1 rnd = Inr s'"
    by (auto simp: drop_tetrimino_def Let_def split: sum.splits if_splits)
  with assms(2,3) lock_and_spawn_speed [of ?s1 rnd s'] show ?thesis by auto
qed

lemma attempt_to_drop_speed:
  assumes "attempt_to_drop s current_time rnd = Inr s'"
    and "100 \<le> drop_speed s" and "1 \<le> level s"
  shows "100 \<le> drop_speed s' \<and> drop_speed s' \<le> drop_speed s \<and> level s \<le> level s'
         \<and> lines_cleared s \<le> lines_cleared s'"
proof -
  from assms(1) obtain s1 d where d: "drop_tetrimino s rnd = Inr (s1, d)"
    by (auto simp: attempt_to_drop_def split: sum.splits)
  note 1 = drop_tetrimino_speed [OF d assms(2,3)]
  show ?thesis
  proof (cases d)
    case True
    with assms(1) d 1 show ?thesis by (auto simp: attempt_to_drop_def)
  next
    case False
    with assms(1) d obtain s2 s3 s4 t where
      p: "place_tetrimino s1 = Inr s2" and c: "clear_lines s2 = Inr s3"
      and n: "new_tetrimino s3 rnd = Inr (s4, t)"
      and s': "s' = s4\<lparr>current_tetrimino := t, last_drop_time := current_time\<rparr>"
      by (auto simp: attempt_to_drop_def split: sum.splits)
    from new_tetrimino_frame [OF n] s'
    have "drop_speed s' = drop_speed s3 \<and> level s' = level s3
          \<and> lines_cleared s' = lines_cleared s3"
      by auto
    with 1 place_tetrimino_frame [OF p] clear_lines_frame [OF c] show ?thesis by simp
  qed
qed

lemma update_speed_level:
  assumes "update s commands current_time rnd = Inr s'"
    and "100 \<le> drop_speed s" and "1 \<le> level s"
  shows "100 \<le> drop_speed s'" and "drop_speed s' \<le> drop_speed s" and "level s \<le> level s'"
    and "lines_cleared s \<le> lines_cleared s'"
proof -
  have "100 \<le> drop_speed s' \<and> drop_speed s' \<le> drop_speed s \<and> level s \<le> level s'
         \<and> lines_cleared s \<le> lines_cleared s'"
  proof (cases "game_over s \<or> is_paused s")
    case True
    with assms show ?thesis by (simp add: update_def)
  next
    case False
    with assms(1) obtain s1 s2 where
      m: "handle_moves s current_time commands = Inr s1"
      and r: "handle_rotation s1 current_time commands = Inr s2"
      and d: "handle_automatic_drop s2 current_time commands rnd = Inr s'"
      by (auto simp: update_def process_player_input_def split: sum.splits)
    from handle_moves_frame [OF m] handle_rotation_frame [OF r] assms(2,3)
    have 2: "drop_speed s2 = drop_speed s" "level s2 = level s"
      "lines_cleared s2 = lines_cleared s" "100 \<le> drop_speed s2" "1 \<le> level s2"
      by simp_all
    from d have "s' = s2 \<or> attempt_to_drop s2 current_time rnd = Inr s'"
      by (auto simp: handle_automatic_drop_def split: if_splits)
    with 2 attempt_to_drop_speed [of s2 current_time rnd s'] show ?thesis by auto
  qed
  then show "100 \<le> drop_speed s'" and "drop_speed s' \<le> drop_speed s"
    and "level s \<le> level s'" and "lines_cleared s \<le> lines_cleared s'"
    by simp_all
qed

section \<open>Spawning at game start and after a lock\<close>






text \<open>
  \<^verbatim>\<open>reset_game\<close> is no lock: it spawns on the grid it has left as it was and then
  clears the flag, whether the piece fits or not.
\<close>

lemma reset_game_blocked_spawn:
  "(case reset_game engine_stack 0 of
      Inl e \<Rightarrow> False
    | Inr s' \<Rightarrow> \<not> game_over s' \<and> current_tetrimino s' = piece_I
                 \<and> can_fit (grid s') (current_tetrimino s') 0 4 None = Inr False)"
  by code_simp

end
